theory Spec2Isabelle
  imports Main
begin

section \<open>The mplayer process manager (src/lib/mplayerManager.ts)\<close>

text \<open>
  The class \<open>MPlayerManager\<close> owns one child process and runs request/response
  operations against it. Everything it does happens in callbacks of the Node.js event
  loop: event listeners on the child process and its streams, promise reactions and a
  timer. The embedding makes that explicit:
  \<^item> every closure the source registers as a listener is a constructor of a datatype
    (one datatype per event kind) and a function that runs it on the manager's state;
  \<^item> an event emitter is the list of its listeners, in registration order; emitting
    runs a snapshot of that list, as Node's \<open>emit\<close> does;
  \<^item> promises are cells that settle at most once, their reactions are queued as
    microtasks;
  \<^item> a \<open>TypeError\<close> raised by reading a property of \<open>undefined\<close> is a value.

  What the caller and the runtime supply is taken as follows. The callback
  \<open>processData\<close> is a function of the line: the calls of \<open>resolve\<close> and \<open>reject\<close> it
  makes while it runs. The callback \<open>op\<close> is the list of commands it passes to \<open>exec\<close>
  while it runs. The injected \<open>log\<close> only records its argument. An \<open>Error\<close> object
  is the string it converts to. The timer's duration is not modelled: an armed timer
  fires when the runtime says so.
\<close>

subsection \<open>Strings\<close>

abbreviation NL :: char where
  "NL \<equiv> CHR 0x0A"

abbreviation QUOTE :: char where
  "QUOTE \<equiv> CHR 0x27"

text \<open>\<open>chunk.split('\n')\<close>: the pieces between newlines; never the empty list.\<close>

fun split_nl :: "string \<Rightarrow> string list" where
  "split_nl [] = [[]]"
| "split_nl (c # cs) =
     (if c = NL then [] # split_nl cs
      else (case split_nl cs of [] \<Rightarrow> [[c]] | l # ls \<Rightarrow> (c # l) # ls))"

text \<open>\<open>data.includes(sub)\<close>: \<open>sub\<close> occurs in \<open>data\<close> as a contiguous substring.\<close>

fun str_includes :: "string \<Rightarrow> string \<Rightarrow> bool" where
  "str_includes [] sub = (sub = [])"
| "str_includes (c # cs) sub = (take (length sub) (c # cs) = sub \<or> str_includes cs sub)"

text \<open>\<open>args.join(' ')\<close>\<close>

fun join_sp :: "string list \<Rightarrow> string" where
  "join_sp [] = []"
| "join_sp [a] = a"
| "join_sp (a # b # bs) = a @ '' '' @ join_sp (b # bs)"

text \<open>Template-literal conversion of an integer, and of the nullable exit code and signal.\<close>

fun show_nat :: "nat \<Rightarrow> string" where
  "show_nat n =
     (if n < 10 then [''0123456789'' ! n]
      else show_nat (n div 10) @ [''0123456789'' ! (n mod 10)])"

definition show_int :: "int \<Rightarrow> string" where
  "show_int i = (if i < 0 then ''-'' @ show_nat (nat (- i)) else show_nat (nat i))"

definition show_code :: "int option \<Rightarrow> string" where
  "show_code c = (case c of None \<Rightarrow> ''null'' | Some i \<Rightarrow> show_int i)"

definition show_signal :: "string option \<Rightarrow> string" where
  "show_signal g = (case g of None \<Rightarrow> ''null'' | Some n \<Rightarrow> n)"

definition MPLAYER_ARGS :: "string list" where
  "MPLAYER_ARGS =
     [''-msgmodule'', ''-msglevel'', ''all=6:statusline=4'', ''-idle'', ''-slave'', ''-fs'',
      ''-noborder'']"

definition DEFAULT_OP_TIMEOUT :: int where
  "DEFAULT_OP_TIMEOUT = 2000"

definition READY_SIGNATURE :: string where
  "READY_SIGNATURE = ''CPLAYER: MPlayer''"


subsection \<open>Data model\<close>

type_synonym pid = nat  \<comment> \<open>identity of a spawned child process (a \<open>ChildProcess\<close> object)\<close>
type_synonym oid = nat  \<comment> \<open>identity of one call of \<open>doOperation\<close> and of its promise\<close>
type_synonym rid = nat  \<comment> \<open>identity of one call of \<open>readyMPlayer\<close> and of its promise\<close>
type_synonym sid = nat  \<comment> \<open>identity of one call of \<open>shutdown\<close> and of its promise\<close>

text \<open>The JavaScript values that settle promises here.\<close>

datatype jsval = JUndefined | JStr string | JNum int | JErr string

datatype promise = Pending | Resolved jsval | Rejected jsval

text \<open>
  What one synchronous invocation of the caller's \<open>processData(data, resolve, reject)\<close>
  did with the two callbacks it was handed, in call order. The empty list: no verdict.
\<close>

datatype settle = DoResolve jsval | DoReject jsval

text \<open>
  The listener closures of the source, one constructor per closure:
  \<^item> \<open>ProcOnExit\<close>, \<open>ProcOnError\<close>: the two listeners \<open>spawnMPlayer\<close> registers first
    (lines 189-196), which log and call \<open>handleProcCompletion\<close>;
  \<^item> \<open>ReadyOnData\<close>, \<open>ReadyOnExit\<close>, \<open>ReadyOnError\<close>: \<open>onData\<close>, \<open>onExit\<close>,
    \<open>onError\<close> of \<open>readyMPlayer\<close> (lines 202-225);
  \<^item> \<open>OpOnData\<close>, \<open>OpOnExit\<close>, \<open>OpOnError\<close>: \<open>onData\<close>, \<open>onExit\<close>, \<open>onError\<close> of
    \<open>doOperation\<close> (lines 76-109);
  \<^item> \<open>ShutdownOnExit\<close>, \<open>ShutdownOnError\<close>: the two listeners of \<open>shutdown\<close>
    (lines 137-143).
\<close>

datatype dlistener = ReadyOnData rid | OpOnData oid

datatype xlistener = ProcOnExit | ReadyOnExit rid | OpOnExit oid | ShutdownOnExit sid

datatype elistener = ProcOnError | ReadyOnError rid | OpOnError oid | ShutdownOnError sid

datatype stream = Stdout | Stderr

text \<open>What the manager does to the outside, in the order it does it.\<close>

datatype effect =
    Log string
  | Spawned pid string "string list"
  | Killed pid
  | StdinWrite pid string
  | ListenData pid stream dlistener
  | ListenExit pid xlistener
  | ListenError pid elistener
  | ProcessData oid string
  | OpCalled oid
  | UnhandledRejection

text \<open>
  A child process: the listeners on the \<open>data\<close> event of its two output streams and on
  its own \<open>exit\<close> and \<open>error\<close> events, and whether its exit event has been delivered.
\<close>

record proc =
  stdout_l :: "dlistener list"
  stderr_l :: "dlistener list"
  exit_l :: "xlistener list"
  error_l :: "elistener list"
  exited :: bool

text \<open>
  The variable \<open>timer\<close> of an operation: never set (\<open>timeout\<close> falsy, or the reaction
  has not run), set and waiting, cleared by \<open>clearTimeout\<close>, or fired.
\<close>

datatype timer = NoTimer | Armed | Cleared | Fired

text \<open>
  The arguments of \<open>doOperation\<close>. The callback \<open>op\<close> is given \<open>exec\<close> and is
  modelled by the argument lists it passes to it, in order.
\<close>

record operation =
  op :: "string list list"
  processData :: "string \<Rightarrow> settle list"
  timeout :: int

text \<open>Promise reactions waiting in the microtask queue.\<close>

datatype task = SpawnMPlayer rid | OpReady oid | OpNotReady oid jsval

text \<open>
  A call either returns or throws; both leave a state behind. \<open>TypeError\<close> is the
  error of reading a property of \<open>undefined\<close>; \<open>UnhandledErrorEvent\<close> is what Node's
  \<open>emit\<close> throws for an \<open>error\<close> event nobody listens to; \<open>NotEnabled\<close> marks a step
  the event loop cannot take in the state at hand.
\<close>

datatype stop = TypeError | UnhandledErrorEvent | NotEnabled

datatype 'a outcome = Returns 'a | Throws stop 'a

text \<open>
  The manager and what it is connected to: the two fields of the class
  (\<open>mplayerProc\<close>, \<open>ready\<close>); the processes spawned so far, numbered from 0; the
  operations started so far with their arguments, promise and timer; the promises of
  the calls of \<open>readyMPlayer\<close> and \<open>shutdown\<close> with the reaction attached to each; the
  microtask queue; the trace of effects.
\<close>

record state =
  mplayerProc :: "pid option"
  ready :: bool
  procs :: "pid \<Rightarrow> proc"
  nprocs :: nat
  ops :: "oid \<Rightarrow> operation"
  results :: "oid \<Rightarrow> promise"
  timers :: "oid \<Rightarrow> timer"
  nops :: nat
  readyP :: "rid \<Rightarrow> promise"
  ready_then :: "rid \<Rightarrow> oid option"
  nreadys :: nat
  shutP :: "sid \<Rightarrow> promise"
  shut_then :: "sid \<Rightarrow> rid option"
  nshuts :: nat
  queue :: "task list"
  trace :: "effect list"

definition no_proc :: proc where
  "no_proc = \<lparr>stdout_l = [], stderr_l = [], exit_l = [], error_l = [], exited = False\<rparr>"

definition no_operation :: operation where
  "no_operation = \<lparr>op = [], processData = (\<lambda>d. []), timeout = 0\<rparr>"

text \<open>\<open>new MPlayerManager(log)\<close>: no process, \<open>ready = false\<close>.\<close>

definition init :: state where
  "init =
     \<lparr>mplayerProc = None, ready = False, procs = (\<lambda>p. no_proc), nprocs = 0,
      ops = (\<lambda>i. no_operation), results = (\<lambda>i. Pending), timers = (\<lambda>i. NoTimer), nops = 0,
      readyP = (\<lambda>r. Pending), ready_then = (\<lambda>r. None), nreadys = 0,
      shutP = (\<lambda>k. Pending), shut_then = (\<lambda>k. None), nshuts = 0,
      queue = [], trace = []\<rparr>"

subsection \<open>Event emitters, promises, the log\<close>

definition log :: "string \<Rightarrow> state \<Rightarrow> state" where
  "log line s = s\<lparr>trace := trace s @ [Log line]\<rparr>"

definition effect :: "effect \<Rightarrow> state \<Rightarrow> state" where
  "effect e s = s\<lparr>trace := trace s @ [e]\<rparr>"

definition enqueue :: "task \<Rightarrow> state \<Rightarrow> state" where
  "enqueue t s = s\<lparr>queue := queue s @ [t]\<rparr>"

text \<open>
  \<open>emitter.removeListener(event, l)\<close> removes at most one instance of \<open>l\<close>, the most
  recently added one.
\<close>

fun removeListener :: "'a \<Rightarrow> 'a list \<Rightarrow> 'a list" where
  "removeListener x [] = []"
| "removeListener x (y # ys) =
     (if x = y \<and> x \<notin> set ys then ys else y # removeListener x ys)"

definition on_data :: "pid \<Rightarrow> stream \<Rightarrow> dlistener \<Rightarrow> state \<Rightarrow> state" where
  "on_data p st l s =
     s\<lparr>procs := (procs s)(p :=
          (case st of
             Stdout \<Rightarrow> (procs s p)\<lparr>stdout_l := stdout_l (procs s p) @ [l]\<rparr>
           | Stderr \<Rightarrow> (procs s p)\<lparr>stderr_l := stderr_l (procs s p) @ [l]\<rparr>)),
       trace := trace s @ [ListenData p st l]\<rparr>"

definition on_exit :: "pid \<Rightarrow> xlistener \<Rightarrow> state \<Rightarrow> state" where
  "on_exit p l s =
     s\<lparr>procs := (procs s)(p := (procs s p)\<lparr>exit_l := exit_l (procs s p) @ [l]\<rparr>),
       trace := trace s @ [ListenExit p l]\<rparr>"

definition on_error :: "pid \<Rightarrow> elistener \<Rightarrow> state \<Rightarrow> state" where
  "on_error p l s =
     s\<lparr>procs := (procs s)(p := (procs s p)\<lparr>error_l := error_l (procs s p) @ [l]\<rparr>),
       trace := trace s @ [ListenError p l]\<rparr>"

definition off_data :: "pid \<Rightarrow> stream \<Rightarrow> dlistener \<Rightarrow> state \<Rightarrow> state" where
  "off_data p st l s =
     s\<lparr>procs := (procs s)(p :=
          (case st of
             Stdout \<Rightarrow> (procs s p)\<lparr>stdout_l := removeListener l (stdout_l (procs s p))\<rparr>
           | Stderr \<Rightarrow> (procs s p)\<lparr>stderr_l := removeListener l (stderr_l (procs s p))\<rparr>))\<rparr>"

definition off_exit :: "pid \<Rightarrow> xlistener \<Rightarrow> state \<Rightarrow> state" where
  "off_exit p l s =
     s\<lparr>procs := (procs s)(p := (procs s p)\<lparr>exit_l := removeListener l (exit_l (procs s p))\<rparr>)\<rparr>"

definition off_error :: "pid \<Rightarrow> elistener \<Rightarrow> state \<Rightarrow> state" where
  "off_error p l s =
     s\<lparr>procs := (procs s)(p := (procs s p)\<lparr>error_l := removeListener l (error_l (procs s p))\<rparr>)\<rparr>"

text \<open>Settling the promise of an operation: only the first call has an effect.\<close>

definition resolve_op :: "oid \<Rightarrow> jsval \<Rightarrow> state \<Rightarrow> state" where
  "resolve_op i v s =
     (if results s i = Pending then s\<lparr>results := (results s)(i := Resolved v)\<rparr> else s)"

definition reject_op :: "oid \<Rightarrow> jsval \<Rightarrow> state \<Rightarrow> state" where
  "reject_op i r s =
     (if results s i = Pending then s\<lparr>results := (results s)(i := Rejected r)\<rparr> else s)"

text \<open>
  Settling the promise of \<open>readyMPlayer\<close>; the reaction \<open>doOperation\<close> attached with
  \<open>then\<close> (lines 52 and 117), if any, becomes a microtask.
\<close>

definition resolve_ready :: "rid \<Rightarrow> state \<Rightarrow> state" where
  "resolve_ready r s =
     (if readyP s r = Pending
      then (case ready_then s r of
              None \<Rightarrow> s\<lparr>readyP := (readyP s)(r := Resolved JUndefined)\<rparr>
            | Some i \<Rightarrow> enqueue (OpReady i) (s\<lparr>readyP := (readyP s)(r := Resolved JUndefined)\<rparr>))
      else s)"

definition reject_ready :: "rid \<Rightarrow> jsval \<Rightarrow> state \<Rightarrow> state" where
  "reject_ready r v s =
     (if readyP s r = Pending
      then (case ready_then s r of
              None \<Rightarrow> s\<lparr>readyP := (readyP s)(r := Rejected v)\<rparr>
            | Some i \<Rightarrow> enqueue (OpNotReady i v) (s\<lparr>readyP := (readyP s)(r := Rejected v)\<rparr>))
      else s)"

text \<open>
  Settling the promise of \<open>shutdown\<close>; \<open>readyMPlayer\<close> reacts to either outcome with
  \<open>spawnMPlayer\<close> (line 232).
\<close>

definition settle_shutdown :: "sid \<Rightarrow> promise \<Rightarrow> state \<Rightarrow> state" where
  "settle_shutdown k v s =
     (if shutP s k = Pending
      then (case shut_then s k of
              None \<Rightarrow> s\<lparr>shutP := (shutP s)(k := v)\<rparr>
            | Some r \<Rightarrow> enqueue (SpawnMPlayer r) (s\<lparr>shutP := (shutP s)(k := v)\<rparr>))
      else s)"


subsection \<open>exec (lines 156-161)\<close>

definition exec :: "string list \<Rightarrow> state \<Rightarrow> state outcome" where
  "exec args s =
     (case mplayerProc s of
        None \<Rightarrow> Throws TypeError (log (''Executing: '' @ [QUOTE] @ join_sp args @ [QUOTE]) s)
      | Some p \<Rightarrow>
          Returns (effect (StdinWrite p (join_sp args @ [NL]))
                    (log (''Executing: '' @ [QUOTE] @ join_sp args @ [QUOTE]) s)))"

text \<open>The callback \<open>op\<close> calling \<open>exec\<close> once per command; a throw ends it.\<close>

fun exec_all :: "string list list \<Rightarrow> state \<Rightarrow> state outcome" where
  "exec_all [] s = Returns s"
| "exec_all (args # rest) s =
     (case exec args s of Returns s' \<Rightarrow> exec_all rest s' | Throws e s' \<Rightarrow> Throws e s')"

subsection \<open>doOperation: the closures of lines 57-109\<close>

definition clear_timer :: "oid \<Rightarrow> state \<Rightarrow> state" where
  "clear_timer i s = (if timers s i = Armed then s\<lparr>timers := (timers s)(i := Cleared)\<rparr> else s)"

definition cleanup :: "oid \<Rightarrow> state \<Rightarrow> state" where
  "cleanup i s =
     clear_timer i
       (case mplayerProc s of
          None \<Rightarrow> s
        | Some p \<Rightarrow>
            off_error p (OpOnError i) (off_exit p (OpOnExit i)
              (off_data p Stderr (OpOnData i) (off_data p Stdout (OpOnData i) s))))"

text \<open>The \<open>resolve\<close> and \<open>reject\<close> wrappers handed to \<open>processData\<close> (lines 82-88).\<close>

fun settle_calls :: "oid \<Rightarrow> settle list \<Rightarrow> state \<Rightarrow> state" where
  "settle_calls i [] s = s"
| "settle_calls i (DoResolve v # cs) s = settle_calls i cs (resolve_op i v s)"
| "settle_calls i (DoReject r # cs) s = settle_calls i cs (reject_op i r s)"

text \<open>The loop of \<open>onData\<close> (lines 80-94); \<open>done\<close> is set by any call of a wrapper.\<close>

fun op_lines :: "oid \<Rightarrow> string list \<Rightarrow> state \<Rightarrow> state" where
  "op_lines i [] s = s"
| "op_lines i (d # ds) s =
     (if processData (ops s i) d \<noteq> []
      then cleanup i (settle_calls i (processData (ops s i) d)
             (effect (ProcessData i d) (log (''data received: '' @ d) s)))
      else op_lines i ds (effect (ProcessData i d) (log (''data received: '' @ d) s)))"

definition op_onData :: "oid \<Rightarrow> string \<Rightarrow> state \<Rightarrow> state" where
  "op_onData i chunk s = op_lines i (split_nl chunk) s"

definition exited_message :: "int option \<Rightarrow> string option \<Rightarrow> string" where
  "exited_message code signal =
     ''MPLAYER exited ('' @ show_code code @ '' - '' @ show_signal signal @ '')''"

definition op_onExit :: "oid \<Rightarrow> int option \<Rightarrow> string option \<Rightarrow> state \<Rightarrow> state" where
  "op_onExit i code signal s = reject_op i (JStr (exited_message code signal)) (clear_timer i s)"

definition op_onError :: "oid \<Rightarrow> string \<Rightarrow> state \<Rightarrow> state" where
  "op_onError i err s = reject_op i (JErr err) (clear_timer i s)"

text \<open>The timer callback (lines 59-61).\<close>

definition timer_fired :: "oid \<Rightarrow> state \<Rightarrow> state" where
  "timer_fired i s = reject_op i (JStr ''Timed out'') (s\<lparr>timers := (timers s)(i := Fired)\<rparr>)"

text \<open>
  The reaction to readiness (lines 53-116): arm the timer, subscribe, call \<open>op\<close>. A throw
  in it rejects the promise \<open>then\<close> returned, which nobody holds.
\<close>

definition op_start :: "oid \<Rightarrow> state \<Rightarrow> state" where
  "op_start i s =
     (case mplayerProc s of
        None \<Rightarrow>
          effect UnhandledRejection
            (if timeout (ops s i) \<noteq> 0 then s\<lparr>timers := (timers s)(i := Armed)\<rparr> else s)
      | Some p \<Rightarrow>
          (case exec_all (op (ops s i))
                  (effect (OpCalled i)
                    (on_error p (OpOnError i) (on_exit p (OpOnExit i)
                      (on_data p Stderr (OpOnData i) (on_data p Stdout (OpOnData i)
                        (if timeout (ops s i) \<noteq> 0 then s\<lparr>timers := (timers s)(i := Armed)\<rparr>
                         else s)))))) of
             Returns s' \<Rightarrow> s'
           | Throws e s' \<Rightarrow> effect UnhandledRejection s'))"

subsection \<open>shutdown (lines 131-147)\<close>

definition shutdown :: "state \<Rightarrow> sid \<times> state" where
  "shutdown s =
     (case mplayerProc s of
        None \<Rightarrow>
          (nshuts s,
           s\<lparr>nshuts := Suc (nshuts s), shutP := (shutP s)(nshuts s := Resolved JUndefined),
             shut_then := (shut_then s)(nshuts s := None)\<rparr>)
      | Some p \<Rightarrow>
          (nshuts s,
           effect (Killed p)
             (on_error p (ShutdownOnError (nshuts s)) (on_exit p (ShutdownOnExit (nshuts s))
               (s\<lparr>nshuts := Suc (nshuts s), shutP := (shutP s)(nshuts s := Pending),
                  shut_then := (shut_then s)(nshuts s := None)\<rparr>)))))"

subsection \<open>readyMPlayer (lines 169-234)\<close>

definition handleProcCompletion :: "state \<Rightarrow> state" where
  "handleProcCompletion s =
     (case mplayerProc s of
        None \<Rightarrow> s\<lparr>ready := False\<rparr>
      | Some p \<Rightarrow>
          s\<lparr>procs := (procs s)(p :=
               (procs s p)\<lparr>stdout_l := [], stderr_l := [], exit_l := [], error_l := []\<rparr>),
             mplayerProc := None, ready := False\<rparr>)"

definition proc_onExit :: "int option \<Rightarrow> string option \<Rightarrow> state \<Rightarrow> state" where
  "proc_onExit code signal s =
     handleProcCompletion
       (log (''MPLAYER exit: '' @ show_code code @ '' '' @ show_signal signal) s)"

definition proc_onError :: "string \<Rightarrow> state \<Rightarrow> state" where
  "proc_onError err s = handleProcCompletion (log (''MPLAYER error: '' @ err) s)"

text \<open>The loop of the readiness \<open>onData\<close> (lines 204-216).\<close>

fun ready_lines :: "rid \<Rightarrow> string list \<Rightarrow> state \<Rightarrow> state outcome" where
  "ready_lines r [] s = Returns s"
| "ready_lines r (d # ds) s =
     (if str_includes d READY_SIGNATURE
      then (case mplayerProc s of
              None \<Rightarrow> Throws TypeError (log (''data received: '' @ d) s)
            | Some p \<Rightarrow>
                Returns (resolve_ready r
                  ((log ''MPLAYER ready''
                     (off_error p (ReadyOnError r) (off_exit p (ReadyOnExit r)
                       (off_data p Stdout (ReadyOnData r)
                         (log (''data received: '' @ d) s)))))\<lparr>ready := True\<rparr>)))
      else ready_lines r ds (log (''data received: '' @ d) s))"

definition ready_onData :: "rid \<Rightarrow> string \<Rightarrow> state \<Rightarrow> state outcome" where
  "ready_onData r chunk s = ready_lines r (split_nl chunk) s"

definition ready_onExit :: "rid \<Rightarrow> int option \<Rightarrow> string option \<Rightarrow> state \<Rightarrow> state" where
  "ready_onExit r code signal s = reject_ready r (JStr (exited_message code signal)) s"

definition ready_onError :: "rid \<Rightarrow> string \<Rightarrow> state \<Rightarrow> state" where
  "ready_onError r err s = reject_ready r (JErr err) s"

definition spawnMPlayer :: "rid \<Rightarrow> state \<Rightarrow> state" where
  "spawnMPlayer r s =
     on_error (nprocs s) (ReadyOnError r) (on_exit (nprocs s) (ReadyOnExit r)
       (on_data (nprocs s) Stdout (ReadyOnData r)
         (on_error (nprocs s) ProcOnError (on_exit (nprocs s) ProcOnExit
           (effect (Spawned (nprocs s) ''mplayer'' MPLAYER_ARGS)
             (s\<lparr>mplayerProc := Some (nprocs s), nprocs := Suc (nprocs s),
                procs := (procs s)(nprocs s := no_proc)\<rparr>))))))"

text \<open>\<open>this.shutdown().then(spawnMPlayer, spawnMPlayer)\<close> (line 232).\<close>

definition then_spawn :: "rid \<Rightarrow> sid \<times> state \<Rightarrow> state" where
  "then_spawn r ks =
     (if shutP (snd ks) (fst ks) = Pending
      then (snd ks)\<lparr>shut_then := (shut_then (snd ks))(fst ks := Some r)\<rparr>
      else enqueue (SpawnMPlayer r) (snd ks))"

definition readyMPlayer :: "state \<Rightarrow> rid \<times> state" where
  "readyMPlayer s =
     (nreadys s,
      then_spawn (nreadys s)
        (shutdown
          (if ready s \<and> mplayerProc s \<noteq> None
           then resolve_ready (nreadys s)
                  (s\<lparr>nreadys := Suc (nreadys s), readyP := (readyP s)(nreadys s := Pending),
                     ready_then := (ready_then s)(nreadys s := None)\<rparr>)
           else s\<lparr>nreadys := Suc (nreadys s), readyP := (readyP s)(nreadys s := Pending),
                  ready_then := (ready_then s)(nreadys s := None)\<rparr>)))"

subsection \<open>doOperation (lines 44-121)\<close>

text \<open>\<open>this.readyMPlayer().then(...)\<close> (lines 52 and 117).\<close>

definition then_op :: "oid \<Rightarrow> rid \<times> state \<Rightarrow> state" where
  "then_op i rs =
     (case readyP (snd rs) (fst rs) of
        Pending \<Rightarrow> (snd rs)\<lparr>ready_then := (ready_then (snd rs))(fst rs := Some i)\<rparr>
      | Resolved v \<Rightarrow> enqueue (OpReady i) (snd rs)
      | Rejected v \<Rightarrow> enqueue (OpNotReady i v) (snd rs))"

definition doOperation :: "operation \<Rightarrow> state \<Rightarrow> oid \<times> state" where
  "doOperation opn s =
     (nops s,
      then_op (nops s)
        (readyMPlayer
          (s\<lparr>nops := Suc (nops s), ops := (ops s)(nops s := opn),
             results := (results s)(nops s := Pending),
             timers := (timers s)(nops s := NoTimer)\<rparr>)))"

subsection \<open>The event loop\<close>

definition run_data :: "dlistener \<Rightarrow> string \<Rightarrow> state \<Rightarrow> state outcome" where
  "run_data l chunk s =
     (case l of
        ReadyOnData r \<Rightarrow> ready_onData r chunk s
      | OpOnData i \<Rightarrow> Returns (op_onData i chunk s))"

definition run_exit :: "xlistener \<Rightarrow> int option \<Rightarrow> string option \<Rightarrow> state \<Rightarrow> state" where
  "run_exit l code signal s =
     (case l of
        ProcOnExit \<Rightarrow> proc_onExit code signal s
      | ReadyOnExit r \<Rightarrow> ready_onExit r code signal s
      | OpOnExit i \<Rightarrow> op_onExit i code signal s
      | ShutdownOnExit k \<Rightarrow> settle_shutdown k (Resolved JUndefined) s)"

definition run_error :: "elistener \<Rightarrow> string \<Rightarrow> state \<Rightarrow> state" where
  "run_error l err s =
     (case l of
        ProcOnError \<Rightarrow> proc_onError err s
      | ReadyOnError r \<Rightarrow> ready_onError r err s
      | OpOnError i \<Rightarrow> op_onError i err s
      | ShutdownOnError k \<Rightarrow> settle_shutdown k (Rejected (JErr err)) s)"

text \<open>
  \<open>emit\<close> calls the listeners registered when it starts, in registration order; a
  listener removed meanwhile is still called, a throw ends the emit.
\<close>

fun emit_data :: "dlistener list \<Rightarrow> string \<Rightarrow> state \<Rightarrow> state outcome" where
  "emit_data [] chunk s = Returns s"
| "emit_data (l # ls) chunk s =
     (case run_data l chunk s of
        Returns s' \<Rightarrow> emit_data ls chunk s'
      | Throws e s' \<Rightarrow> Throws e s')"

fun emit_exit :: "xlistener list \<Rightarrow> int option \<Rightarrow> string option \<Rightarrow> state \<Rightarrow> state" where
  "emit_exit [] code signal s = s"
| "emit_exit (l # ls) code signal s = emit_exit ls code signal (run_exit l code signal s)"

fun emit_error :: "elistener list \<Rightarrow> string \<Rightarrow> state \<Rightarrow> state" where
  "emit_error [] err s = s"
| "emit_error (l # ls) err s = emit_error ls err (run_error l err s)"

definition stdout_chunk :: "pid \<Rightarrow> string \<Rightarrow> state \<Rightarrow> state outcome" where
  "stdout_chunk p chunk s = emit_data (stdout_l (procs s p)) chunk s"

definition stderr_chunk :: "pid \<Rightarrow> string \<Rightarrow> state \<Rightarrow> state outcome" where
  "stderr_chunk p chunk s = emit_data (stderr_l (procs s p)) chunk s"

definition proc_exit :: "pid \<Rightarrow> int option \<Rightarrow> string option \<Rightarrow> state \<Rightarrow> state" where
  "proc_exit p code signal s =
     emit_exit (exit_l (procs s p)) code signal
       (s\<lparr>procs := (procs s)(p := (procs s p)\<lparr>exited := True\<rparr>)\<rparr>)"

definition proc_error :: "pid \<Rightarrow> string \<Rightarrow> state \<Rightarrow> state outcome" where
  "proc_error p err s =
     (if error_l (procs s p) = [] then Throws UnhandledErrorEvent s
      else Returns (emit_error (error_l (procs s p)) err s))"

definition run_task :: "task \<Rightarrow> state \<Rightarrow> state" where
  "run_task t s =
     (case t of
        SpawnMPlayer r \<Rightarrow> spawnMPlayer r s
      | OpReady i \<Rightarrow> op_start i s
      | OpNotReady i v \<Rightarrow> reject_op i v s)"

text \<open>
  One turn of the program: a call of the public interface, one microtask, or one event
  delivered by the runtime. Events are delivered only when no microtask is waiting: Node
  drains the microtask queue before it hands out the next event.
\<close>

datatype action =
    CallDoOperation operation
  | CallShutdown
  | Microtask
  | StdoutChunk pid string
  | StderrChunk pid string
  | Exited pid "int option" "string option"
  | Errored pid string
  | TimerFired oid

definition enabled :: "action \<Rightarrow> state \<Rightarrow> bool" where
  "enabled a s =
     (case a of
        CallDoOperation opn \<Rightarrow> True
      | CallShutdown \<Rightarrow> True
      | Microtask \<Rightarrow> queue s \<noteq> []
      | StdoutChunk p chunk \<Rightarrow> queue s = [] \<and> p < nprocs s
      | StderrChunk p chunk \<Rightarrow> queue s = [] \<and> p < nprocs s
      | Exited p code signal \<Rightarrow> queue s = [] \<and> p < nprocs s \<and> \<not> exited (procs s p)
      | Errored p err \<Rightarrow> queue s = [] \<and> p < nprocs s
      | TimerFired i \<Rightarrow> queue s = [] \<and> timers s i = Armed)"

definition step :: "action \<Rightarrow> state \<Rightarrow> state outcome" where
  "step a s =
     (if enabled a s
      then (case a of
              CallDoOperation opn \<Rightarrow> Returns (snd (doOperation opn s))
            | CallShutdown \<Rightarrow> Returns (snd (shutdown s))
            | Microtask \<Rightarrow> Returns (run_task (hd (queue s)) (s\<lparr>queue := tl (queue s)\<rparr>))
            | StdoutChunk p chunk \<Rightarrow> stdout_chunk p chunk s
            | StderrChunk p chunk \<Rightarrow> stderr_chunk p chunk s
            | Exited p code signal \<Rightarrow> Returns (proc_exit p code signal s)
            | Errored p err \<Rightarrow> proc_error p err s
            | TimerFired i \<Rightarrow> Returns (timer_fired i s))
      else Throws NotEnabled s)"

fun run :: "action list \<Rightarrow> state \<Rightarrow> state outcome" where
  "run [] s = Returns s"
| "run (a # as) s =
     (case step a s of
        Returns s' \<Rightarrow> run as s'
      | Throws e s' \<Rightarrow> Throws e s')"

subsection \<open>Notions used in the statements\<close>

text \<open>The state a call leaves behind, returned or thrown.\<close>

fun final :: "'a outcome \<Rightarrow> 'a" where
  "final (Returns s) = s"
| "final (Throws e s) = s"

text \<open>What one call of \<open>exec\<close> does to the outside when a process exists.\<close>

definition exec_effects :: "pid \<Rightarrow> string list \<Rightarrow> effect list" where
  "exec_effects p args =
     [Log (''Executing: '' @ [QUOTE] @ join_sp args @ [QUOTE]),
      StdinWrite p (join_sp args @ [NL])]"

text \<open>What the loop of an operation's \<open>onData\<close> does with one line: log it, classify it.\<close>

definition line_effects :: "oid \<Rightarrow> string \<Rightarrow> effect list" where
  "line_effects i d = [Log (''data received: '' @ d), ProcessData i d]"

definition first_is :: "'a \<Rightarrow> 'a list \<Rightarrow> bool" where
  "first_is a xs = (case xs of [] \<Rightarrow> False | x # rest \<Rightarrow> x = a)"

text \<open>
  The supervisor's invariant: \<open>ready\<close> only with a handle, and the handle is a spawned
  process whose exit event has not been delivered and whose first exit and error
  listeners are the ones that call \<open>handleProcCompletion\<close>.
\<close>

definition handle_inv :: "state \<Rightarrow> bool" where
  "handle_inv s \<longleftrightarrow>
     (ready s \<longrightarrow> mplayerProc s \<noteq> None) \<and>
     (\<forall>p. mplayerProc s = Some p \<longrightarrow>
        p < nprocs s \<and> \<not> exited (procs s p) \<and>
        first_is ProcOnExit (exit_l (procs s p)) \<and>
        first_is ProcOnError (error_l (procs s p)))"

definition cleared :: "state \<Rightarrow> bool" where
  "cleared s \<longleftrightarrow> mplayerProc s = None \<and> \<not> ready s"

text \<open>No listener is left on the process or on its two output streams.\<close>

definition no_listeners :: "pid \<Rightarrow> state \<Rightarrow> bool" where
  "no_listeners p s \<longleftrightarrow>
     stdout_l (procs s p) = [] \<and> stderr_l (procs s p) = [] \<and>
     exit_l (procs s p) = [] \<and> error_l (procs s p) = []"

text \<open>Only operations listen on standard error.\<close>

definition is_op_listener :: "dlistener \<Rightarrow> bool" where
  "is_op_listener l = (case l of OpOnData i \<Rightarrow> True | ReadyOnData r \<Rightarrow> False)"

definition stderr_inv :: "state \<Rightarrow> bool" where
  "stderr_inv s \<longleftrightarrow> (\<forall>p. list_all is_op_listener (stderr_l (procs s p)))"

text \<open>
  From \<open>s\<close> to \<open>s'\<close> no operation was forgotten and every operation settled in \<open>s\<close> has
  the same outcome in \<open>s'\<close>.
\<close>

definition settled_kept :: "state \<Rightarrow> state \<Rightarrow> bool" where
  "settled_kept s s' \<longleftrightarrow>
     nops s \<le> nops s' \<and>
     (\<forall>i<nops s. results s i \<noteq> Pending \<longrightarrow> results s' i = results s i)"

text \<open>
  Where operations listen, and what waits in the microtask queue. \<open>wiring\<close>: every
  non-empty list of exit and error listeners starts with the listener that calls
  \<open>handleProcCompletion\<close>, the current process has both, and a process on which some
  operation's listener is registered is the current process.
\<close>

definition op_listening :: "pid \<Rightarrow> state \<Rightarrow> bool" where
  "op_listening p s \<longleftrightarrow>
     (\<exists>i. OpOnData i \<in> set (stdout_l (procs s p)) \<or> OpOnData i \<in> set (stderr_l (procs s p)) \<or>
          OpOnExit i \<in> set (exit_l (procs s p)) \<or> OpOnError i \<in> set (error_l (procs s p)))"

definition spawn_queued :: "state \<Rightarrow> bool" where
  "spawn_queued s \<longleftrightarrow> (\<exists>r. SpawnMPlayer r \<in> set (queue s))"

definition ready_queued :: "state \<Rightarrow> bool" where
  "ready_queued s \<longleftrightarrow> (\<exists>i. OpReady i \<in> set (queue s))"

definition first_or_none :: "'a \<Rightarrow> 'a list \<Rightarrow> bool" where
  "first_or_none a xs = (case xs of [] \<Rightarrow> True | x # rest \<Rightarrow> x = a)"

definition wiring :: "state \<Rightarrow> bool" where
  "wiring s \<longleftrightarrow>
     (\<forall>p. first_or_none ProcOnExit (exit_l (procs s p)) \<and>
          first_or_none ProcOnError (error_l (procs s p))) \<and>
     (\<forall>p. mplayerProc s = Some p \<longrightarrow>
          exit_l (procs s p) \<noteq> [] \<and> error_l (procs s p) \<noteq> []) \<and>
     (\<forall>p. op_listening p s \<longrightarrow> mplayerProc s = Some p)"

text \<open>
  While a spawn waits in the queue the manager is not ready, no reaction to readiness
  waits with it and no operation listens anywhere; a reaction to readiness waits only
  while a process handle exists.
\<close>

definition session_inv :: "state \<Rightarrow> bool" where
  "session_inv s \<longleftrightarrow>
     wiring s \<and>
     (ready s \<longrightarrow> mplayerProc s \<noteq> None) \<and>
     (spawn_queued s \<longrightarrow> \<not> ready s \<and> \<not> ready_queued s \<and> (\<forall>p. \<not> op_listening p s)) \<and>
     (ready_queued s \<longrightarrow> mplayerProc s \<noteq> None)"

text \<open>The states inside an exit or error event, after \<open>handleProcCompletion\<close> has run.\<close>

definition quiet :: "state \<Rightarrow> bool" where
  "quiet s \<longleftrightarrow>
     wiring s \<and> mplayerProc s = None \<and> \<not> ready s \<and> \<not> ready_queued s"

text \<open>The states inside a data event.\<close>

definition steady :: "state \<Rightarrow> bool" where
  "steady s \<longleftrightarrow> session_inv s \<and> \<not> spawn_queued s"

text \<open>
  The order of effects. \<open>subscriptions p i\<close> are the four registrations of an operation;
  a trace is \<open>subscribed\<close> when every call of an \<open>op\<close> callback in it comes right
  after the four registrations of that operation on one process; an extension of a
  trace is \<open>calm\<close> when no \<open>op\<close> callback is called in it.
\<close>

definition subscriptions :: "pid \<Rightarrow> oid \<Rightarrow> effect list" where
  "subscriptions p i =
     [ListenData p Stdout (OpOnData i), ListenData p Stderr (OpOnData i),
      ListenExit p (OpOnExit i), ListenError p (OpOnError i)]"

definition subscribed :: "effect list \<Rightarrow> bool" where
  "subscribed tr \<longleftrightarrow>
     (\<forall>pre post i. tr = pre @ OpCalled i # post \<longrightarrow>
        (\<exists>p pre'. pre = pre' @ subscriptions p i))"

definition calm :: "effect list \<Rightarrow> bool" where
  "calm ext \<longleftrightarrow> (\<forall>i. OpCalled i \<notin> set ext)"

definition calm_to :: "state \<Rightarrow> state \<Rightarrow> bool" where
  "calm_to s s' \<longleftrightarrow> (\<exists>ext. trace s' = trace s @ ext \<and> calm ext)"

subsection \<open>A concrete session\<close>

text \<open>
  \<open>doOperation\<close> asking for the volume: it resolves with the digits of the first line
  that starts with \<open>ANS_volume=\<close>.
\<close>

definition get_volume :: operation where
  "get_volume =
     \<lparr>op = [[''get_property'', ''volume'']],
      processData =
        (\<lambda>d. if take 11 d = ''ANS_volume='' then [DoResolve (JStr (drop 11 d))] else []),
      timeout = DEFAULT_OP_TIMEOUT\<rparr>"

text \<open>
  The first operation on a fresh manager: the call, the spawn, the banner on standard
  output, the reaction that subscribes and sends the command.
\<close>

definition ready_run :: "action list" where
  "ready_run =
     [CallDoOperation get_volume, Microtask,
      StdoutChunk 0 ''MPlayer 1.3.0\<newline>CPLAYER: MPlayer started\<newline>'', Microtask]"

definition ready_state :: state where
  "ready_state = final (run ready_run init)"

text \<open>The same session before the banner arrives: spawned, not ready.\<close>

definition spawned_run :: "action list" where
  "spawned_run = [CallDoOperation get_volume, Microtask]"

definition spawned_state :: state where
  "spawned_state = final (run spawned_run init)"

text \<open>
  \<open>readyMPlayer\<close> called in the ready state, then the exit of the process it killed and
  the microtask that exit queues.
\<close>

definition respawned_state :: state where
  "respawned_state =
     final (run [Exited 0 None (Some ''SIGTERM''), Microtask] (snd (readyMPlayer ready_state)))"

text \<open>What the session has done before it calls \<open>op\<close>.\<close>

definition ready_trace_before_op :: "effect list" where
  "ready_trace_before_op =
     [Spawned 0 ''mplayer'' MPLAYER_ARGS,
      ListenExit 0 ProcOnExit, ListenError 0 ProcOnError,
      ListenData 0 Stdout (ReadyOnData 0), ListenExit 0 (ReadyOnExit 0),
      ListenError 0 (ReadyOnError 0),
      Log ''data received: MPlayer 1.3.0'', Log ''data received: CPLAYER: MPlayer started'',
      Log ''MPLAYER ready'',
      ListenData 0 Stdout (OpOnData 0), ListenData 0 Stderr (OpOnData 0),
      ListenExit 0 (OpOnExit 0), ListenError 0 (OpOnError 0)]"




section \<open>Basic facts\<close>

lemma split_nl_nonempty: "split_nl cs \<noteq> []"
  by (induction cs) (auto split: list.splits)

subsection \<open>What each primitive leaves alone\<close>

lemma log_frame [simp]:
  "mplayerProc (log l s) = mplayerProc s"
  "ready (log l s) = ready s"
  "procs (log l s) = procs s"
  "nprocs (log l s) = nprocs s"
  "ops (log l s) = ops s"
  "results (log l s) = results s"
  "timers (log l s) = timers s"
  "nops (log l s) = nops s"
  "readyP (log l s) = readyP s"
  "ready_then (log l s) = ready_then s"
  "nreadys (log l s) = nreadys s"
  "shutP (log l s) = shutP s"
  "shut_then (log l s) = shut_then s"
  "nshuts (log l s) = nshuts s"
  "queue (log l s) = queue s"
  by (simp_all add: log_def)

lemma effect_frame [simp]:
  "mplayerProc (effect e s) = mplayerProc s"
  "ready (effect e s) = ready s"
  "procs (effect e s) = procs s"
  "nprocs (effect e s) = nprocs s"
  "ops (effect e s) = ops s"
  "results (effect e s) = results s"
  "timers (effect e s) = timers s"
  "nops (effect e s) = nops s"
  "readyP (effect e s) = readyP s"
  "ready_then (effect e s) = ready_then s"
  "nreadys (effect e s) = nreadys s"
  "shutP (effect e s) = shutP s"
  "shut_then (effect e s) = shut_then s"
  "nshuts (effect e s) = nshuts s"
  "queue (effect e s) = queue s"
  by (simp_all add: effect_def)

lemma enqueue_frame [simp]:
  "mplayerProc (enqueue t s) = mplayerProc s"
  "ready (enqueue t s) = ready s"
  "procs (enqueue t s) = procs s"
  "nprocs (enqueue t s) = nprocs s"
  "ops (enqueue t s) = ops s"
  "results (enqueue t s) = results s"
  "timers (enqueue t s) = timers s"
  "nops (enqueue t s) = nops s"
  "readyP (enqueue t s) = readyP s"
  "ready_then (enqueue t s) = ready_then s"
  "nreadys (enqueue t s) = nreadys s"
  "shutP (enqueue t s) = shutP s"
  "shut_then (enqueue t s) = shut_then s"
  "nshuts (enqueue t s) = nshuts s"
  "trace (enqueue t s) = trace s"
  by (simp_all add: enqueue_def)

lemma on_data_frame [simp]:
  "mplayerProc (on_data p st l s) = mplayerProc s"
  "ready (on_data p st l s) = ready s"
  "nprocs (on_data p st l s) = nprocs s"
  "ops (on_data p st l s) = ops s"
  "results (on_data p st l s) = results s"
  "timers (on_data p st l s) = timers s"
  "nops (on_data p st l s) = nops s"
  "readyP (on_data p st l s) = readyP s"
  "ready_then (on_data p st l s) = ready_then s"
  "nreadys (on_data p st l s) = nreadys s"
  "shutP (on_data p st l s) = shutP s"
  "shut_then (on_data p st l s) = shut_then s"
  "nshuts (on_data p st l s) = nshuts s"
  "queue (on_data p st l s) = queue s"
  by (simp_all add: on_data_def)

lemma on_exit_frame [simp]:
  "mplayerProc (on_exit p l s) = mplayerProc s"
  "ready (on_exit p l s) = ready s"
  "nprocs (on_exit p l s) = nprocs s"
  "ops (on_exit p l s) = ops s"
  "results (on_exit p l s) = results s"
  "timers (on_exit p l s) = timers s"
  "nops (on_exit p l s) = nops s"
  "readyP (on_exit p l s) = readyP s"
  "ready_then (on_exit p l s) = ready_then s"
  "nreadys (on_exit p l s) = nreadys s"
  "shutP (on_exit p l s) = shutP s"
  "shut_then (on_exit p l s) = shut_then s"
  "nshuts (on_exit p l s) = nshuts s"
  "queue (on_exit p l s) = queue s"
  by (simp_all add: on_exit_def)

lemma on_error_frame [simp]:
  "mplayerProc (on_error p l s) = mplayerProc s"
  "ready (on_error p l s) = ready s"
  "nprocs (on_error p l s) = nprocs s"
  "ops (on_error p l s) = ops s"
  "results (on_error p l s) = results s"
  "timers (on_error p l s) = timers s"
  "nops (on_error p l s) = nops s"
  "readyP (on_error p l s) = readyP s"
  "ready_then (on_error p l s) = ready_then s"
  "nreadys (on_error p l s) = nreadys s"
  "shutP (on_error p l s) = shutP s"
  "shut_then (on_error p l s) = shut_then s"
  "nshuts (on_error p l s) = nshuts s"
  "queue (on_error p l s) = queue s"
  by (simp_all add: on_error_def)

lemma off_data_frame [simp]:
  "mplayerProc (off_data p st l s) = mplayerProc s"
  "ready (off_data p st l s) = ready s"
  "nprocs (off_data p st l s) = nprocs s"
  "ops (off_data p st l s) = ops s"
  "results (off_data p st l s) = results s"
  "timers (off_data p st l s) = timers s"
  "nops (off_data p st l s) = nops s"
  "readyP (off_data p st l s) = readyP s"
  "ready_then (off_data p st l s) = ready_then s"
  "nreadys (off_data p st l s) = nreadys s"
  "shutP (off_data p st l s) = shutP s"
  "shut_then (off_data p st l s) = shut_then s"
  "nshuts (off_data p st l s) = nshuts s"
  "queue (off_data p st l s) = queue s"
  "trace (off_data p st l s) = trace s"
  by (simp_all add: off_data_def)

lemma off_exit_frame [simp]:
  "mplayerProc (off_exit p l s) = mplayerProc s"
  "ready (off_exit p l s) = ready s"
  "nprocs (off_exit p l s) = nprocs s"
  "ops (off_exit p l s) = ops s"
  "results (off_exit p l s) = results s"
  "timers (off_exit p l s) = timers s"
  "nops (off_exit p l s) = nops s"
  "readyP (off_exit p l s) = readyP s"
  "ready_then (off_exit p l s) = ready_then s"
  "nreadys (off_exit p l s) = nreadys s"
  "shutP (off_exit p l s) = shutP s"
  "shut_then (off_exit p l s) = shut_then s"
  "nshuts (off_exit p l s) = nshuts s"
  "queue (off_exit p l s) = queue s"
  "trace (off_exit p l s) = trace s"
  by (simp_all add: off_exit_def)

lemma off_error_frame [simp]:
  "mplayerProc (off_error p l s) = mplayerProc s"
  "ready (off_error p l s) = ready s"
  "nprocs (off_error p l s) = nprocs s"
  "ops (off_error p l s) = ops s"
  "results (off_error p l s) = results s"
  "timers (off_error p l s) = timers s"
  "nops (off_error p l s) = nops s"
  "readyP (off_error p l s) = readyP s"
  "ready_then (off_error p l s) = ready_then s"
  "nreadys (off_error p l s) = nreadys s"
  "shutP (off_error p l s) = shutP s"
  "shut_then (off_error p l s) = shut_then s"
  "nshuts (off_error p l s) = nshuts s"
  "queue (off_error p l s) = queue s"
  "trace (off_error p l s) = trace s"
  by (simp_all add: off_error_def)

lemma resolve_op_frame [simp]:
  "mplayerProc (resolve_op i v s) = mplayerProc s"
  "ready (resolve_op i v s) = ready s"
  "procs (resolve_op i v s) = procs s"
  "nprocs (resolve_op i v s) = nprocs s"
  "ops (resolve_op i v s) = ops s"
  "timers (resolve_op i v s) = timers s"
  "nops (resolve_op i v s) = nops s"
  "readyP (resolve_op i v s) = readyP s"
  "ready_then (resolve_op i v s) = ready_then s"
  "nreadys (resolve_op i v s) = nreadys s"
  "shutP (resolve_op i v s) = shutP s"
  "shut_then (resolve_op i v s) = shut_then s"
  "nshuts (resolve_op i v s) = nshuts s"
  "queue (resolve_op i v s) = queue s"
  "trace (resolve_op i v s) = trace s"
  by (simp_all add: resolve_op_def)

lemma reject_op_frame [simp]:
  "mplayerProc (reject_op i v s) = mplayerProc s"
  "ready (reject_op i v s) = ready s"
  "procs (reject_op i v s) = procs s"
  "nprocs (reject_op i v s) = nprocs s"
  "ops (reject_op i v s) = ops s"
  "timers (reject_op i v s) = timers s"
  "nops (reject_op i v s) = nops s"
  "readyP (reject_op i v s) = readyP s"
  "ready_then (reject_op i v s) = ready_then s"
  "nreadys (reject_op i v s) = nreadys s"
  "shutP (reject_op i v s) = shutP s"
  "shut_then (reject_op i v s) = shut_then s"
  "nshuts (reject_op i v s) = nshuts s"
  "queue (reject_op i v s) = queue s"
  "trace (reject_op i v s) = trace s"
  by (simp_all add: reject_op_def)

lemma resolve_ready_frame [simp]:
  "mplayerProc (resolve_ready r s) = mplayerProc s"
  "ready (resolve_ready r s) = ready s"
  "procs (resolve_ready r s) = procs s"
  "nprocs (resolve_ready r s) = nprocs s"
  "ops (resolve_ready r s) = ops s"
  "results (resolve_ready r s) = results s"
  "timers (resolve_ready r s) = timers s"
  "nops (resolve_ready r s) = nops s"
  "ready_then (resolve_ready r s) = ready_then s"
  "nreadys (resolve_ready r s) = nreadys s"
  "shutP (resolve_ready r s) = shutP s"
  "shut_then (resolve_ready r s) = shut_then s"
  "nshuts (resolve_ready r s) = nshuts s"
  "trace (resolve_ready r s) = trace s"
  by (simp_all add: resolve_ready_def enqueue_def split: option.splits)

lemma reject_ready_frame [simp]:
  "mplayerProc (reject_ready r v s) = mplayerProc s"
  "ready (reject_ready r v s) = ready s"
  "procs (reject_ready r v s) = procs s"
  "nprocs (reject_ready r v s) = nprocs s"
  "ops (reject_ready r v s) = ops s"
  "results (reject_ready r v s) = results s"
  "timers (reject_ready r v s) = timers s"
  "nops (reject_ready r v s) = nops s"
  "ready_then (reject_ready r v s) = ready_then s"
  "nreadys (reject_ready r v s) = nreadys s"
  "shutP (reject_ready r v s) = shutP s"
  "shut_then (reject_ready r v s) = shut_then s"
  "nshuts (reject_ready r v s) = nshuts s"
  "trace (reject_ready r v s) = trace s"
  by (simp_all add: reject_ready_def enqueue_def split: option.splits)

lemma settle_shutdown_frame [simp]:
  "mplayerProc (settle_shutdown k v s) = mplayerProc s"
  "ready (settle_shutdown k v s) = ready s"
  "procs (settle_shutdown k v s) = procs s"
  "nprocs (settle_shutdown k v s) = nprocs s"
  "ops (settle_shutdown k v s) = ops s"
  "results (settle_shutdown k v s) = results s"
  "timers (settle_shutdown k v s) = timers s"
  "nops (settle_shutdown k v s) = nops s"
  "readyP (settle_shutdown k v s) = readyP s"
  "ready_then (settle_shutdown k v s) = ready_then s"
  "nreadys (settle_shutdown k v s) = nreadys s"
  "shut_then (settle_shutdown k v s) = shut_then s"
  "nshuts (settle_shutdown k v s) = nshuts s"
  "trace (settle_shutdown k v s) = trace s"
  by (simp_all add: settle_shutdown_def enqueue_def split: option.splits)

lemma clear_timer_frame [simp]:
  "mplayerProc (clear_timer i s) = mplayerProc s"
  "ready (clear_timer i s) = ready s"
  "procs (clear_timer i s) = procs s"
  "nprocs (clear_timer i s) = nprocs s"
  "ops (clear_timer i s) = ops s"
  "results (clear_timer i s) = results s"
  "nops (clear_timer i s) = nops s"
  "readyP (clear_timer i s) = readyP s"
  "ready_then (clear_timer i s) = ready_then s"
  "nreadys (clear_timer i s) = nreadys s"
  "shutP (clear_timer i s) = shutP s"
  "shut_then (clear_timer i s) = shut_then s"
  "nshuts (clear_timer i s) = nshuts s"
  "queue (clear_timer i s) = queue s"
  "trace (clear_timer i s) = trace s"
  by (simp_all add: clear_timer_def)

lemma on_data_procs [simp]:
  "stdout_l (procs (on_data p st l s) q) =
     (if q = p \<and> st = Stdout then stdout_l (procs s q) @ [l] else stdout_l (procs s q))"
  "stderr_l (procs (on_data p st l s) q) =
     (if q = p \<and> st = Stderr then stderr_l (procs s q) @ [l] else stderr_l (procs s q))"
  "exit_l (procs (on_data p st l s) q) = exit_l (procs s q)"
  "error_l (procs (on_data p st l s) q) = error_l (procs s q)"
  "exited (procs (on_data p st l s) q) = exited (procs s q)"
  by (simp_all add: on_data_def split: stream.splits)

lemma on_exit_procs [simp]:
  "stdout_l (procs (on_exit p l s) q) = stdout_l (procs s q)"
  "stderr_l (procs (on_exit p l s) q) = stderr_l (procs s q)"
  "exit_l (procs (on_exit p l s) q) =
     (if q = p then exit_l (procs s q) @ [l] else exit_l (procs s q))"
  "error_l (procs (on_exit p l s) q) = error_l (procs s q)"
  "exited (procs (on_exit p l s) q) = exited (procs s q)"
  by (simp_all add: on_exit_def split: stream.splits)

lemma on_error_procs [simp]:
  "stdout_l (procs (on_error p l s) q) = stdout_l (procs s q)"
  "stderr_l (procs (on_error p l s) q) = stderr_l (procs s q)"
  "exit_l (procs (on_error p l s) q) = exit_l (procs s q)"
  "error_l (procs (on_error p l s) q) =
     (if q = p then error_l (procs s q) @ [l] else error_l (procs s q))"
  "exited (procs (on_error p l s) q) = exited (procs s q)"
  by (simp_all add: on_error_def split: stream.splits)

lemma off_data_procs [simp]:
  "stdout_l (procs (off_data p st l s) q) =
     (if q = p \<and> st = Stdout then removeListener l (stdout_l (procs s q)) else stdout_l (procs s q))"
  "stderr_l (procs (off_data p st l s) q) =
     (if q = p \<and> st = Stderr then removeListener l (stderr_l (procs s q)) else stderr_l (procs s q))"
  "exit_l (procs (off_data p st l s) q) = exit_l (procs s q)"
  "error_l (procs (off_data p st l s) q) = error_l (procs s q)"
  "exited (procs (off_data p st l s) q) = exited (procs s q)"
  by (simp_all add: off_data_def split: stream.splits)

lemma off_exit_procs [simp]:
  "stdout_l (procs (off_exit p l s) q) = stdout_l (procs s q)"
  "stderr_l (procs (off_exit p l s) q) = stderr_l (procs s q)"
  "exit_l (procs (off_exit p l s) q) =
     (if q = p then removeListener l (exit_l (procs s q)) else exit_l (procs s q))"
  "error_l (procs (off_exit p l s) q) = error_l (procs s q)"
  "exited (procs (off_exit p l s) q) = exited (procs s q)"
  by (simp_all add: off_exit_def split: stream.splits)

lemma off_error_procs [simp]:
  "stdout_l (procs (off_error p l s) q) = stdout_l (procs s q)"
  "stderr_l (procs (off_error p l s) q) = stderr_l (procs s q)"
  "exit_l (procs (off_error p l s) q) = exit_l (procs s q)"
  "error_l (procs (off_error p l s) q) =
     (if q = p then removeListener l (error_l (procs s q)) else error_l (procs s q))"
  "exited (procs (off_error p l s) q) = exited (procs s q)"
  by (simp_all add: off_error_def split: stream.splits)

lemma trace_log [simp]: "trace (log l s) = trace s @ [Log l]"
  by (simp add: log_def)

lemma trace_effect [simp]: "trace (effect e s) = trace s @ [e]"
  by (simp add: effect_def)

lemma queue_enqueue [simp]: "queue (enqueue t s) = queue s @ [t]"
  by (simp add: enqueue_def)

lemma trace_on [simp]:
  "trace (on_data p st dl s) = trace s @ [ListenData p st dl]"
  "trace (on_exit p xl s) = trace s @ [ListenExit p xl]"
  "trace (on_error p el s) = trace s @ [ListenError p el]"
  by (simp_all add: on_data_def on_exit_def on_error_def)

lemma results_resolve_op [simp]:
  "results (resolve_op i v s) j =
     (if j = i \<and> results s i = Pending then Resolved v else results s j)"
  by (simp add: resolve_op_def)

lemma results_reject_op [simp]:
  "results (reject_op i v s) j =
     (if j = i \<and> results s i = Pending then Rejected v else results s j)"
  by (simp add: reject_op_def)

lemma timers_clear_timer [simp]:
  "timers (clear_timer i s) j = (if j = i \<and> timers s i = Armed then Cleared else timers s j)"
  by (simp add: clear_timer_def)

lemma readyP_resolve_ready [simp]:
  "readyP (resolve_ready r s) q =
     (if q = r \<and> readyP s r = Pending then Resolved JUndefined else readyP s q)"
  by (simp add: resolve_ready_def enqueue_def split: option.splits)

lemma readyP_reject_ready [simp]:
  "readyP (reject_ready r v s) q =
     (if q = r \<and> readyP s r = Pending then Rejected v else readyP s q)"
  by (simp add: reject_ready_def enqueue_def split: option.splits)

lemma shutP_settle_shutdown [simp]:
  "shutP (settle_shutdown k v s) q =
     (if q = k \<and> shutP s k = Pending then v else shutP s q)"
  by (simp add: settle_shutdown_def enqueue_def split: option.splits)

lemma set_removeListener: "set (removeListener x xs) \<subseteq> set xs"
  by (induction xs) auto

lemma removeListener_other: "y \<noteq> x \<Longrightarrow> y \<in> set (removeListener x xs) \<longleftrightarrow> y \<in> set xs"
  by (induction xs) auto

lemma removeListener_distinct: "distinct xs \<Longrightarrow> x \<notin> set (removeListener x xs)"
  by (induction xs) auto

lemma distinct_removeListener: "distinct xs \<Longrightarrow> distinct (removeListener x xs)"
  by (induction xs) (auto simp: removeListener_other)

lemma exec_some:
  "mplayerProc s = Some p \<Longrightarrow> exec args s = Returns (s\<lparr>trace := trace s @ exec_effects p args\<rparr>)"
  by (simp add: exec_def exec_effects_def log_def effect_def)

lemma exec_all_some:
  "mplayerProc s = Some p \<Longrightarrow>
   exec_all cmds s = Returns (s\<lparr>trace := trace s @ concat (map (exec_effects p) cmds)\<rparr>)"
  by (induction cmds arbitrary: s) (simp_all add: exec_some)

lemma split_nl_snoc: "split_nl (chunk @ [NL]) = split_nl chunk @ [[]]"
  by (induction chunk) (auto split: list.splits simp: split_nl_nonempty)

lemma op_lines_no_verdict:
  "\<forall>d\<in>set ds. processData (ops s i) d = [] \<Longrightarrow>
   op_lines i (ds @ rest) s =
     op_lines i rest (s\<lparr>trace := trace s @ concat (map (line_effects i) ds)\<rparr>)"
  by (induction ds arbitrary: s) (simp_all add: effect_def log_def line_effects_def)

lemma op_lines_verdict:
  assumes "\<forall>d\<in>set pre. processData (ops s i) d = []" and "processData (ops s i) d \<noteq> []"
  shows "op_lines i (pre @ d # post) s =
           cleanup i (settle_calls i (processData (ops s i) d)
             (s\<lparr>trace := trace s @ concat (map (line_effects i) (pre @ [d]))\<rparr>))"
  using assms by (simp add: op_lines_no_verdict effect_def log_def line_effects_def)

lemma settle_calls_frame [simp]:
  "mplayerProc (settle_calls i cs s) = mplayerProc s"
  "ready (settle_calls i cs s) = ready s"
  "procs (settle_calls i cs s) = procs s"
  "nprocs (settle_calls i cs s) = nprocs s"
  "ops (settle_calls i cs s) = ops s"
  "timers (settle_calls i cs s) = timers s"
  "nops (settle_calls i cs s) = nops s"
  "readyP (settle_calls i cs s) = readyP s"
  "ready_then (settle_calls i cs s) = ready_then s"
  "nreadys (settle_calls i cs s) = nreadys s"
  "shutP (settle_calls i cs s) = shutP s"
  "shut_then (settle_calls i cs s) = shut_then s"
  "nshuts (settle_calls i cs s) = nshuts s"
  "queue (settle_calls i cs s) = queue s"
  "trace (settle_calls i cs s) = trace s"
  by (induction i cs s rule: settle_calls.induct) simp_all

lemma settle_calls_settled:
  "results s i \<noteq> Pending \<Longrightarrow> results (settle_calls i cs s) = results s"
  by (induction i cs s rule: settle_calls.induct) (auto simp: fun_eq_iff)

lemma settle_calls_other:
  "j \<noteq> i \<Longrightarrow> results (settle_calls i cs s) j = results s j"
  by (induction i cs s rule: settle_calls.induct) auto

lemma settle_calls_first:
  "results s i = Pending \<Longrightarrow>
   results (settle_calls i (c # cs) s) i =
     (case c of DoResolve v \<Rightarrow> Resolved v | DoReject r \<Rightarrow> Rejected r)"
  by (cases c) (simp_all add: settle_calls_settled)

lemma cleanup_frame [simp]:
  "mplayerProc (cleanup i s) = mplayerProc s"
  "ready (cleanup i s) = ready s"
  "nprocs (cleanup i s) = nprocs s"
  "ops (cleanup i s) = ops s"
  "results (cleanup i s) = results s"
  "nops (cleanup i s) = nops s"
  "readyP (cleanup i s) = readyP s"
  "ready_then (cleanup i s) = ready_then s"
  "nreadys (cleanup i s) = nreadys s"
  "shutP (cleanup i s) = shutP s"
  "shut_then (cleanup i s) = shut_then s"
  "nshuts (cleanup i s) = nshuts s"
  "queue (cleanup i s) = queue s"
  "trace (cleanup i s) = trace s"
  by (simp_all add: cleanup_def split: option.splits)

lemma cleanup_timer: "timers (cleanup i s) j = (if j = i \<and> timers s i = Armed then Cleared else timers s j)"
  by (simp add: cleanup_def split: option.splits)

lemma cleanup_procs:
  "stdout_l (procs (cleanup i s) q) =
     (if mplayerProc s = Some q then removeListener (OpOnData i) (stdout_l (procs s q))
      else stdout_l (procs s q))"
  "stderr_l (procs (cleanup i s) q) =
     (if mplayerProc s = Some q then removeListener (OpOnData i) (stderr_l (procs s q))
      else stderr_l (procs s q))"
  "exit_l (procs (cleanup i s) q) =
     (if mplayerProc s = Some q then removeListener (OpOnExit i) (exit_l (procs s q))
      else exit_l (procs s q))"
  "error_l (procs (cleanup i s) q) =
     (if mplayerProc s = Some q then removeListener (OpOnError i) (error_l (procs s q))
      else error_l (procs s q))"
  "exited (procs (cleanup i s) q) = exited (procs s q)"
  by (auto simp add: cleanup_def clear_timer_def split: option.splits)

lemma first_is_append: "first_is a xs \<Longrightarrow> first_is a (xs @ ys)"
  by (cases xs) (simp_all add: first_is_def)

lemma first_is_removeListener: "first_is a xs \<Longrightarrow> b \<noteq> a \<Longrightarrow> first_is a (removeListener b xs)"
  by (cases xs) (auto simp: first_is_def)

lemma handle_inv_prims [simp]:
  "handle_inv (log l s) = handle_inv s"
  "handle_inv (effect e s) = handle_inv s"
  "handle_inv (enqueue t s) = handle_inv s"
  "handle_inv (resolve_op i v s) = handle_inv s"
  "handle_inv (reject_op i v s) = handle_inv s"
  "handle_inv (resolve_ready r s) = handle_inv s"
  "handle_inv (reject_ready r v s) = handle_inv s"
  "handle_inv (settle_shutdown k pv s) = handle_inv s"
  "handle_inv (clear_timer i s) = handle_inv s"
  "handle_inv (settle_calls i cs s) = handle_inv s"
  by (simp_all add: handle_inv_def)

lemma handle_inv_on:
  "handle_inv s \<Longrightarrow> handle_inv (on_data p st dl s)"
  "handle_inv s \<Longrightarrow> handle_inv (on_exit p xl s)"
  "handle_inv s \<Longrightarrow> handle_inv (on_error p el s)"
  by (auto simp: handle_inv_def first_is_append)

lemma handle_inv_off:
  "handle_inv s \<Longrightarrow> handle_inv (off_data p st dl s)"
  "handle_inv s \<Longrightarrow> xl \<noteq> ProcOnExit \<Longrightarrow> handle_inv (off_exit p xl s)"
  "handle_inv s \<Longrightarrow> el \<noteq> ProcOnError \<Longrightarrow> handle_inv (off_error p el s)"
  by (auto simp: handle_inv_def first_is_removeListener)

lemma handle_inv_cleanup: "handle_inv s \<Longrightarrow> handle_inv (cleanup i s)"
  by (simp add: cleanup_def handle_inv_off split: option.splits)

lemma handle_inv_op_lines: "handle_inv s \<Longrightarrow> handle_inv (op_lines i ds s)"
  by (induction i ds s rule: op_lines.induct) (simp_all add: handle_inv_cleanup)

lemma handle_inv_exec: "handle_inv s \<Longrightarrow> handle_inv (final (exec args s))"
  by (simp add: exec_def split: option.splits)

lemma handle_inv_exec_all: "handle_inv s \<Longrightarrow> handle_inv (final (exec_all cmds s))"
proof (induction cmds arbitrary: s)
  case Nil
  then show ?case by simp
next
  case (Cons args cmds)
  from Cons.prems have "handle_inv (final (exec args s))" by (rule handle_inv_exec)
  then show ?case using Cons.IH by (cases "exec args s") simp_all
qed

lemma handle_inv_timer: "handle_inv (s\<lparr>timers := t\<rparr>) = handle_inv s"
  by (simp add: handle_inv_def)

lemma handle_inv_op_start: "handle_inv s \<Longrightarrow> handle_inv (op_start i s)"
proof (cases "mplayerProc s")
  case None
  assume "handle_inv s"
  with None show ?thesis by (simp add: op_start_def handle_inv_timer)
next
  case (Some p)
  assume h: "handle_inv s"
  let ?s1 = "effect (OpCalled i)
               (on_error p (OpOnError i) (on_exit p (OpOnExit i)
                 (on_data p Stderr (OpOnData i) (on_data p Stdout (OpOnData i)
                   (if timeout (ops s i) \<noteq> 0 then s\<lparr>timers := (timers s)(i := Armed)\<rparr>
                    else s)))))"
  from h have "handle_inv ?s1" by (simp add: handle_inv_on handle_inv_timer)
  then have "handle_inv (final (exec_all (op (ops s i)) ?s1))" by (rule handle_inv_exec_all)
  with Some show ?thesis
    by (cases "exec_all (op (ops s i)) ?s1") (simp_all add: op_start_def)
qed

lemma handle_inv_shutdown: "handle_inv s \<Longrightarrow> handle_inv (snd (shutdown s))"
proof (cases "mplayerProc s")
  case None
  assume "handle_inv s"
  with None show ?thesis by (simp add: shutdown_def handle_inv_def)
next
  case (Some p)
  assume "handle_inv s"
  then have "handle_inv (s\<lparr>nshuts := Suc (nshuts s), shutP := (shutP s)(nshuts s := Pending),
                  shut_then := (shut_then s)(nshuts s := None)\<rparr>)"
    by (simp add: handle_inv_def)
  with Some show ?thesis by (simp add: shutdown_def handle_inv_on)
qed

lemma handle_inv_completion: "handle_inv (handleProcCompletion s)"
  by (simp add: handleProcCompletion_def handle_inv_def split: option.splits)

lemma handle_inv_ready_lines: "handle_inv s \<Longrightarrow> handle_inv (final (ready_lines r ds s))"
proof (induction r ds s rule: ready_lines.induct)
  case (1 r s)
  then show ?case by simp
next
  case (2 r d ds s)
  show ?case
  proof (cases "str_includes d READY_SIGNATURE")
    case False
    with 2 show ?thesis by simp
  next
    case True
    show ?thesis
    proof (cases "mplayerProc s")
      case None
      with True 2 show ?thesis by simp
    next
      case (Some p)
      let ?s1 = "log ''MPLAYER ready''
                     (off_error p (ReadyOnError r) (off_exit p (ReadyOnExit r)
                       (off_data p Stdout (ReadyOnData r)
                         (log (''data received: '' @ d) s))))"
      from 2(2) have "handle_inv ?s1" by (simp add: handle_inv_off)
      moreover have "mplayerProc ?s1 = Some p" using Some by simp
      ultimately have "handle_inv (?s1\<lparr>ready := True\<rparr>)" by (simp add: handle_inv_def)
      with True Some show ?thesis by simp
    qed
  qed
qed

lemma handle_inv_spawn: "handle_inv (spawnMPlayer r s)"
  by (simp add: spawnMPlayer_def handle_inv_def no_proc_def first_is_def)

lemma handle_inv_then_spawn: "handle_inv (snd ks) \<Longrightarrow> handle_inv (then_spawn r ks)"
  by (simp add: then_spawn_def handle_inv_def)

lemma handle_inv_readyMPlayer: "handle_inv s \<Longrightarrow> handle_inv (snd (readyMPlayer s))"
proof -
  assume h: "handle_inv s"
  let ?s0 = "s\<lparr>nreadys := Suc (nreadys s), readyP := (readyP s)(nreadys s := Pending),
               ready_then := (ready_then s)(nreadys s := None)\<rparr>"
  let ?s1 = "if ready s \<and> mplayerProc s \<noteq> None then resolve_ready (nreadys s) ?s0 else ?s0"
  from h have "handle_inv ?s0" by (simp add: handle_inv_def)
  then have "handle_inv ?s1" by simp
  then have "handle_inv (snd (shutdown ?s1))" by (rule handle_inv_shutdown)
  then have "handle_inv (then_spawn (nreadys s) (shutdown ?s1))" by (rule handle_inv_then_spawn)
  then show ?thesis by (simp add: readyMPlayer_def)
qed

lemma handle_inv_then_op: "handle_inv (snd rs) \<Longrightarrow> handle_inv (then_op i rs)"
  by (simp add: then_op_def handle_inv_def split: promise.splits)

lemma handle_inv_doOperation: "handle_inv s \<Longrightarrow> handle_inv (snd (doOperation opn s))"
proof -
  assume h: "handle_inv s"
  let ?s0 = "s\<lparr>nops := Suc (nops s), ops := (ops s)(nops s := opn),
               results := (results s)(nops s := Pending),
               timers := (timers s)(nops s := NoTimer)\<rparr>"
  from h have "handle_inv ?s0" by (simp add: handle_inv_def)
  then have "handle_inv (snd (readyMPlayer ?s0))" by (rule handle_inv_readyMPlayer)
  then have "handle_inv (then_op (nops s) (readyMPlayer ?s0))" by (rule handle_inv_then_op)
  then show ?thesis by (simp add: doOperation_def)
qed

lemma handle_inv_run_data: "handle_inv s \<Longrightarrow> handle_inv (final (run_data l chunk s))"
  by (cases l) (simp_all add: run_data_def ready_onData_def op_onData_def
      handle_inv_ready_lines handle_inv_op_lines)

lemma handle_inv_emit_data: "handle_inv s \<Longrightarrow> handle_inv (final (emit_data ls chunk s))"
proof (induction ls arbitrary: s)
  case Nil
  then show ?case by simp
next
  case (Cons l ls)
  from Cons.prems have "handle_inv (final (run_data l chunk s))" by (rule handle_inv_run_data)
  then show ?case using Cons.IH by (cases "run_data l chunk s") simp_all
qed

lemma handle_inv_run_exit: "handle_inv s \<Longrightarrow> handle_inv (run_exit l code signal s)"
  by (cases l) (simp_all add: run_exit_def proc_onExit_def ready_onExit_def op_onExit_def
      handle_inv_completion)

lemma handle_inv_run_error: "handle_inv s \<Longrightarrow> handle_inv (run_error l err s)"
  by (cases l) (simp_all add: run_error_def proc_onError_def ready_onError_def op_onError_def
      handle_inv_completion)

lemma handle_inv_emit_exit: "handle_inv s \<Longrightarrow> handle_inv (emit_exit ls code signal s)"
  by (induction ls arbitrary: s) (simp_all add: handle_inv_run_exit)

lemma handle_inv_emit_error: "handle_inv s \<Longrightarrow> handle_inv (emit_error ls err s)"
  by (induction ls arbitrary: s) (simp_all add: handle_inv_run_error)

text \<open>Once the handle and the flag are cleared, no listener of an exit or error event
  sets them again.\<close>

lemma cleared_completion: "cleared (handleProcCompletion s)"
  by (simp add: cleared_def handleProcCompletion_def split: option.splits)

lemma cleared_run_exit: "cleared s \<Longrightarrow> cleared (run_exit l code signal s)"
  by (cases l) (simp_all add: cleared_def run_exit_def proc_onExit_def ready_onExit_def
      op_onExit_def handleProcCompletion_def)

lemma cleared_run_error: "cleared s \<Longrightarrow> cleared (run_error l err s)"
  by (cases l) (simp_all add: cleared_def run_error_def proc_onError_def ready_onError_def
      op_onError_def handleProcCompletion_def)

lemma cleared_emit_exit: "cleared s \<Longrightarrow> cleared (emit_exit ls code signal s)"
  by (induction ls arbitrary: s) (simp_all add: cleared_run_exit)

lemma cleared_emit_error: "cleared s \<Longrightarrow> cleared (emit_error ls err s)"
  by (induction ls arbitrary: s) (simp_all add: cleared_run_error)

lemma cleared_handle_inv: "cleared s \<Longrightarrow> handle_inv s"
  by (simp add: cleared_def handle_inv_def)

lemma proc_exit_current:
  assumes "handle_inv s" and "mplayerProc s = Some p"
  shows "cleared (proc_exit p code signal s)"
proof -
  from assms obtain ls where ls: "exit_l (procs s p) = ProcOnExit # ls"
    by (cases "exit_l (procs s p)") (auto simp: handle_inv_def first_is_def)
  have "cleared (run_exit ProcOnExit code signal
          (s\<lparr>procs := (procs s)(p := (procs s p)\<lparr>exited := True\<rparr>)\<rparr>))"
    by (simp add: run_exit_def proc_onExit_def cleared_completion)
  then show ?thesis by (simp add: proc_exit_def ls cleared_emit_exit)
qed

lemma proc_error_current:
  assumes "handle_inv s" and "mplayerProc s = Some p"
  shows "\<exists>s'. proc_error p err s = Returns s' \<and> cleared s'"
proof -
  from assms obtain ls where ls: "error_l (procs s p) = ProcOnError # ls"
    by (cases "error_l (procs s p)") (auto simp: handle_inv_def first_is_def)
  have "cleared (run_error ProcOnError err s)"
    by (simp add: run_error_def proc_onError_def cleared_completion)
  then show ?thesis by (simp add: proc_error_def ls cleared_emit_error)
qed

lemma handle_inv_proc_exit: "handle_inv s \<Longrightarrow> handle_inv (proc_exit p code signal s)"
proof (cases "mplayerProc s = Some p")
  case True
  assume "handle_inv s"
  with True show ?thesis by (simp add: proc_exit_current cleared_handle_inv)
next
  case False
  assume "handle_inv s"
  with False have "handle_inv (s\<lparr>procs := (procs s)(p := (procs s p)\<lparr>exited := True\<rparr>)\<rparr>)"
    by (auto simp: handle_inv_def)
  then show ?thesis by (simp add: proc_exit_def handle_inv_emit_exit)
qed

lemma handle_inv_proc_error: "handle_inv s \<Longrightarrow> handle_inv (final (proc_error p err s))"
  by (simp add: proc_error_def handle_inv_emit_error)

lemma handle_inv_run_task: "handle_inv s \<Longrightarrow> handle_inv (run_task t s)"
  by (cases t) (simp_all add: run_task_def handle_inv_spawn handle_inv_op_start)

lemma handle_inv_queue: "handle_inv (s\<lparr>queue := q\<rparr>) = handle_inv s"
  by (simp add: handle_inv_def)

lemma handle_inv_timer_fired: "handle_inv s \<Longrightarrow> handle_inv (timer_fired i s)"
  by (simp add: timer_fired_def handle_inv_timer)

lemma handle_inv_step: "handle_inv s \<Longrightarrow> handle_inv (final (step a s))"
  by (cases a)
    (simp_all add: step_def handle_inv_doOperation handle_inv_shutdown handle_inv_run_task
      handle_inv_queue stdout_chunk_def stderr_chunk_def handle_inv_emit_data
      handle_inv_proc_exit handle_inv_proc_error handle_inv_timer_fired)

lemma handle_inv_run: "handle_inv s \<Longrightarrow> handle_inv (final (run acts s))"
proof (induction acts arbitrary: s)
  case Nil
  then show ?case by simp
next
  case (Cons a acts)
  from Cons.prems have "handle_inv (final (step a s))" by (rule handle_inv_step)
  then show ?case using Cons.IH by (cases "step a s") simp_all
qed

lemma handle_inv_init: "handle_inv init"
  by (simp add: handle_inv_def init_def)

lemmas model_defs =
  init_def no_proc_def no_operation_def log_def effect_def enqueue_def
  on_data_def on_exit_def on_error_def off_data_def off_exit_def off_error_def
  resolve_op_def reject_op_def resolve_ready_def reject_ready_def settle_shutdown_def
  exec_def clear_timer_def cleanup_def op_onData_def exited_message_def op_onExit_def
  op_onError_def timer_fired_def op_start_def shutdown_def handleProcCompletion_def
  proc_onExit_def proc_onError_def ready_onData_def ready_onExit_def ready_onError_def
  spawnMPlayer_def then_spawn_def readyMPlayer_def then_op_def doOperation_def
  run_data_def run_exit_def run_error_def stdout_chunk_def stderr_chunk_def
  proc_exit_def proc_error_def run_task_def enabled_def step_def
  show_code_def show_signal_def show_int_def READY_SIGNATURE_def DEFAULT_OP_TIMEOUT_def
  MPLAYER_ARGS_def

lemma list_all_removeListener: "list_all P xs \<Longrightarrow> list_all P (removeListener x xs)"
  using set_removeListener [of x xs] by (auto simp: list_all_iff)

lemma stderr_inv_cong: "procs s' = procs s \<Longrightarrow> stderr_inv s' = stderr_inv s"
  by (simp add: stderr_inv_def)

lemma stderr_inv_prims [simp]:
  "stderr_inv (log l s) = stderr_inv s"
  "stderr_inv (effect e s) = stderr_inv s"
  "stderr_inv (enqueue t s) = stderr_inv s"
  "stderr_inv (resolve_op i v s) = stderr_inv s"
  "stderr_inv (reject_op i v s) = stderr_inv s"
  "stderr_inv (resolve_ready r s) = stderr_inv s"
  "stderr_inv (reject_ready r v s) = stderr_inv s"
  "stderr_inv (settle_shutdown k pv s) = stderr_inv s"
  "stderr_inv (clear_timer i s) = stderr_inv s"
  "stderr_inv (settle_calls i cs s) = stderr_inv s"
  "stderr_inv (on_exit p xl s) = stderr_inv s"
  "stderr_inv (on_error p el s) = stderr_inv s"
  "stderr_inv (off_exit p xl s) = stderr_inv s"
  "stderr_inv (off_error p el s) = stderr_inv s"
  "stderr_inv (on_data p Stdout dl s) = stderr_inv s"
  by (simp_all add: stderr_inv_def)

lemma stderr_inv_on_stderr: "stderr_inv s \<Longrightarrow> stderr_inv (on_data p Stderr (OpOnData i) s)"
  by (simp add: stderr_inv_def is_op_listener_def)

lemma stderr_inv_off_data: "stderr_inv s \<Longrightarrow> stderr_inv (off_data p st dl s)"
  by (simp add: stderr_inv_def list_all_removeListener)

lemma stderr_inv_cleanup: "stderr_inv s \<Longrightarrow> stderr_inv (cleanup i s)"
  by (simp add: cleanup_def stderr_inv_off_data split: option.splits)

lemma stderr_inv_op_lines: "stderr_inv s \<Longrightarrow> stderr_inv (op_lines i ds s)"
  by (induction i ds s rule: op_lines.induct) (simp_all add: stderr_inv_cleanup)

lemma stderr_inv_exec: "stderr_inv s \<Longrightarrow> stderr_inv (final (exec args s))"
  by (simp add: exec_def split: option.splits)

lemma stderr_inv_exec_all: "stderr_inv s \<Longrightarrow> stderr_inv (final (exec_all cmds s))"
proof (induction cmds arbitrary: s)
  case Nil
  then show ?case by simp
next
  case (Cons args cmds)
  from Cons.prems have "stderr_inv (final (exec args s))" by (rule stderr_inv_exec)
  then show ?case using Cons.IH by (cases "exec args s") simp_all
qed

lemma stderr_inv_op_start: "stderr_inv s \<Longrightarrow> stderr_inv (op_start i s)"
proof (cases "mplayerProc s")
  case None
  assume "stderr_inv s"
  with None show ?thesis by (simp add: op_start_def stderr_inv_def)
next
  case (Some p)
  assume h: "stderr_inv s"
  let ?s0 = "if timeout (ops s i) \<noteq> 0 then s\<lparr>timers := (timers s)(i := Armed)\<rparr> else s"
  let ?s1 = "effect (OpCalled i)
               (on_error p (OpOnError i) (on_exit p (OpOnExit i)
                 (on_data p Stderr (OpOnData i) (on_data p Stdout (OpOnData i) ?s0))))"
  from h have "stderr_inv ?s0" by (simp add: stderr_inv_def)
  then have "stderr_inv ?s1" by (simp add: stderr_inv_on_stderr)
  then have "stderr_inv (final (exec_all (op (ops s i)) ?s1))" by (rule stderr_inv_exec_all)
  with Some show ?thesis
    by (cases "exec_all (op (ops s i)) ?s1") (simp_all add: op_start_def)
qed

lemma stderr_inv_shutdown: "stderr_inv s \<Longrightarrow> stderr_inv (snd (shutdown s))"
  by (cases "mplayerProc s") (simp_all add: shutdown_def stderr_inv_def)

lemma stderr_inv_completion: "stderr_inv s \<Longrightarrow> stderr_inv (handleProcCompletion s)"
  by (simp add: handleProcCompletion_def stderr_inv_def split: option.splits)

lemma stderr_inv_ready_lines: "stderr_inv s \<Longrightarrow> stderr_inv (final (ready_lines r ds s))"
proof (induction r ds s rule: ready_lines.induct)
  case (1 r s)
  then show ?case by simp
next
  case (2 r d ds s)
  show ?case
  proof (cases "str_includes d READY_SIGNATURE")
    case False
    with 2 show ?thesis by simp
  next
    case True
    show ?thesis
    proof (cases "mplayerProc s")
      case None
      with True 2 show ?thesis by simp
    next
      case (Some p)
      let ?s1 = "log ''MPLAYER ready''
                     (off_error p (ReadyOnError r) (off_exit p (ReadyOnExit r)
                       (off_data p Stdout (ReadyOnData r)
                         (log (''data received: '' @ d) s))))"
      from 2(2) have "stderr_inv ?s1" by (simp add: stderr_inv_off_data)
      then have "stderr_inv (?s1\<lparr>ready := True\<rparr>)" by (simp add: stderr_inv_def)
      with True Some show ?thesis by simp
    qed
  qed
qed

lemma stderr_inv_spawn: "stderr_inv s \<Longrightarrow> stderr_inv (spawnMPlayer r s)"
proof -
  assume "stderr_inv s"
  then have "stderr_inv (s\<lparr>mplayerProc := Some (nprocs s), nprocs := Suc (nprocs s),
                procs := (procs s)(nprocs s := no_proc)\<rparr>)"
    by (simp add: stderr_inv_def no_proc_def)
  then show ?thesis by (simp add: spawnMPlayer_def)
qed

lemma stderr_inv_then_spawn: "stderr_inv (snd ks) \<Longrightarrow> stderr_inv (then_spawn r ks)"
  by (simp add: then_spawn_def stderr_inv_def)

lemma stderr_inv_readyMPlayer: "stderr_inv s \<Longrightarrow> stderr_inv (snd (readyMPlayer s))"
proof -
  assume h: "stderr_inv s"
  let ?s0 = "s\<lparr>nreadys := Suc (nreadys s), readyP := (readyP s)(nreadys s := Pending),
               ready_then := (ready_then s)(nreadys s := None)\<rparr>"
  let ?s1 = "if ready s \<and> mplayerProc s \<noteq> None then resolve_ready (nreadys s) ?s0 else ?s0"
  from h have "stderr_inv ?s0" by (simp add: stderr_inv_def)
  then have "stderr_inv ?s1" by simp
  then have "stderr_inv (snd (shutdown ?s1))" by (rule stderr_inv_shutdown)
  then have "stderr_inv (then_spawn (nreadys s) (shutdown ?s1))" by (rule stderr_inv_then_spawn)
  then show ?thesis by (simp add: readyMPlayer_def)
qed

lemma stderr_inv_then_op: "stderr_inv (snd rs) \<Longrightarrow> stderr_inv (then_op i rs)"
  by (simp add: then_op_def stderr_inv_def split: promise.splits)

lemma stderr_inv_doOperation: "stderr_inv s \<Longrightarrow> stderr_inv (snd (doOperation opn s))"
proof -
  assume h: "stderr_inv s"
  let ?s0 = "s\<lparr>nops := Suc (nops s), ops := (ops s)(nops s := opn),
               results := (results s)(nops s := Pending),
               timers := (timers s)(nops s := NoTimer)\<rparr>"
  from h have "stderr_inv ?s0" by (simp add: stderr_inv_def)
  then have "stderr_inv (snd (readyMPlayer ?s0))" by (rule stderr_inv_readyMPlayer)
  then have "stderr_inv (then_op (nops s) (readyMPlayer ?s0))" by (rule stderr_inv_then_op)
  then show ?thesis by (simp add: doOperation_def)
qed

lemma stderr_inv_run_data: "stderr_inv s \<Longrightarrow> stderr_inv (final (run_data l chunk s))"
  by (cases l) (simp_all add: run_data_def ready_onData_def op_onData_def
      stderr_inv_ready_lines stderr_inv_op_lines)

lemma stderr_inv_emit_data: "stderr_inv s \<Longrightarrow> stderr_inv (final (emit_data ls chunk s))"
proof (induction ls arbitrary: s)
  case Nil
  then show ?case by simp
next
  case (Cons l ls)
  from Cons.prems have "stderr_inv (final (run_data l chunk s))" by (rule stderr_inv_run_data)
  then show ?case using Cons.IH by (cases "run_data l chunk s") simp_all
qed

lemma stderr_inv_run_exit: "stderr_inv s \<Longrightarrow> stderr_inv (run_exit l code signal s)"
  by (cases l) (simp_all add: run_exit_def proc_onExit_def ready_onExit_def op_onExit_def
      stderr_inv_completion)

lemma stderr_inv_run_error: "stderr_inv s \<Longrightarrow> stderr_inv (run_error l err s)"
  by (cases l) (simp_all add: run_error_def proc_onError_def ready_onError_def op_onError_def
      stderr_inv_completion)

lemma stderr_inv_emit_exit: "stderr_inv s \<Longrightarrow> stderr_inv (emit_exit ls code signal s)"
  by (induction ls arbitrary: s) (simp_all add: stderr_inv_run_exit)

lemma stderr_inv_emit_error: "stderr_inv s \<Longrightarrow> stderr_inv (emit_error ls err s)"
  by (induction ls arbitrary: s) (simp_all add: stderr_inv_run_error)

lemma stderr_inv_proc_exit: "stderr_inv s \<Longrightarrow> stderr_inv (proc_exit p code signal s)"
proof -
  assume "stderr_inv s"
  then have "stderr_inv (s\<lparr>procs := (procs s)(p := (procs s p)\<lparr>exited := True\<rparr>)\<rparr>)"
    by (simp add: stderr_inv_def)
  then show ?thesis by (simp add: proc_exit_def stderr_inv_emit_exit)
qed

lemma stderr_inv_proc_error: "stderr_inv s \<Longrightarrow> stderr_inv (final (proc_error p err s))"
  by (simp add: proc_error_def stderr_inv_emit_error)

lemma stderr_inv_run_task: "stderr_inv s \<Longrightarrow> stderr_inv (run_task t s)"
  by (cases t) (simp_all add: run_task_def stderr_inv_spawn stderr_inv_op_start)

lemma stderr_inv_step: "stderr_inv s \<Longrightarrow> stderr_inv (final (step a s))"
proof -
  assume h: "stderr_inv s"
  have q: "stderr_inv (s\<lparr>queue := tl (queue s)\<rparr>)" using h by (simp add: stderr_inv_def)
  have t: "stderr_inv (timer_fired i s)" for i
    using h by (simp add: timer_fired_def stderr_inv_def reject_op_def)
  show ?thesis
    using h q t
    by (cases a)
      (simp_all add: step_def stderr_inv_doOperation stderr_inv_shutdown stderr_inv_run_task
        stdout_chunk_def stderr_chunk_def stderr_inv_emit_data
        stderr_inv_proc_exit stderr_inv_proc_error)
qed

lemma stderr_inv_run: "stderr_inv s \<Longrightarrow> stderr_inv (final (run acts s))"
proof (induction acts arbitrary: s)
  case Nil
  then show ?case by simp
next
  case (Cons a acts)
  from Cons.prems have "stderr_inv (final (step a s))" by (rule stderr_inv_step)
  then show ?case using Cons.IH by (cases "step a s") simp_all
qed

lemma stderr_inv_init: "stderr_inv init"
  by (simp add: stderr_inv_def init_def no_proc_def)

text \<open>An operation's \<open>onData\<close> touches neither the flag nor a readiness promise.\<close>

lemma op_lines_ready [simp]:
  "ready (op_lines i ds s) = ready s"
  "readyP (op_lines i ds s) = readyP s"
  by (induction i ds s rule: op_lines.induct) simp_all

lemma emit_data_ops_only:
  "list_all is_op_listener ls \<Longrightarrow>
   \<exists>s'. emit_data ls chunk s = Returns s' \<and> ready s' = ready s \<and> readyP s' = readyP s"
proof (induction ls arbitrary: s)
  case Nil
  then show ?case by simp
next
  case (Cons l ls)
  from Cons.prems obtain i where l: "l = OpOnData i"
    by (cases l) (simp_all add: is_op_listener_def)
  from Cons.prems have "list_all is_op_listener ls" by simp
  from Cons.IH [OF this, of "op_onData i chunk s"] show ?case
    by (simp add: l run_data_def op_onData_def)
qed

lemma settled_kept_refl [simp]: "settled_kept s s"
  by (simp add: settled_kept_def)

lemma settled_kept_trans: "settled_kept s s' \<Longrightarrow> settled_kept s' s'' \<Longrightarrow> settled_kept s s''"
  by (auto simp: settled_kept_def)

lemma settled_kept_same: "nops s' = nops s \<Longrightarrow> results s' = results s \<Longrightarrow> settled_kept s s'"
  by (simp add: settled_kept_def)

lemma exec_results [simp]:
  "results (final (exec args s)) = results s" "nops (final (exec args s)) = nops s"
  by (simp_all add: exec_def split: option.splits)

lemma exec_all_results [simp]:
  "results (final (exec_all cmds s)) = results s \<and> nops (final (exec_all cmds s)) = nops s"
proof (induction cmds arbitrary: s)
  case Nil
  show ?case by simp
next
  case (Cons args cmds)
  show ?case
  proof (cases "exec args s")
    case (Returns s')
    with exec_results [of args s] Cons [of s'] show ?thesis by simp
  next
    case (Throws e s')
    with exec_results [of args s] show ?thesis by simp
  qed
qed

lemma op_start_results [simp]:
  "results (op_start i s) = results s" "nops (op_start i s) = nops s"
proof -
  have "results (op_start i s) = results s \<and> nops (op_start i s) = nops s"
  proof (cases "mplayerProc s")
    case None
    then show ?thesis by (simp add: op_start_def)
  next
    case (Some p)
    let ?s1 = "effect (OpCalled i)
               (on_error p (OpOnError i) (on_exit p (OpOnExit i)
                 (on_data p Stderr (OpOnData i) (on_data p Stdout (OpOnData i)
                   (if timeout (ops s i) \<noteq> 0 then s\<lparr>timers := (timers s)(i := Armed)\<rparr>
                    else s)))))"
    have "results ?s1 = results s" "nops ?s1 = nops s" by simp_all
    with exec_all_results [of "op (ops s i)" ?s1] Some show ?thesis
      by (cases "exec_all (op (ops s i)) ?s1") (simp_all add: op_start_def)
  qed
  then show "results (op_start i s) = results s" "nops (op_start i s) = nops s" by simp_all
qed

lemma supervisor_results [simp]:
  "results (snd (shutdown s)) = results s" "nops (snd (shutdown s)) = nops s"
  "results (handleProcCompletion s) = results s" "nops (handleProcCompletion s) = nops s"
  "results (spawnMPlayer r s) = results s" "nops (spawnMPlayer r s) = nops s"
  "results (then_spawn r ks) = results (snd ks)" "nops (then_spawn r ks) = nops (snd ks)"
  "results (then_op i rs) = results (snd rs)" "nops (then_op i rs) = nops (snd rs)"
  by (simp_all add: shutdown_def handleProcCompletion_def spawnMPlayer_def then_spawn_def
      then_op_def split: option.splits promise.splits)

lemma readyMPlayer_results [simp]:
  "results (snd (readyMPlayer s)) = results s" "nops (snd (readyMPlayer s)) = nops s"
  by (simp_all add: readyMPlayer_def)

lemma ready_lines_results [simp]:
  "results (final (ready_lines r ds s)) = results s"
  "nops (final (ready_lines r ds s)) = nops s"
  by (induction r ds s rule: ready_lines.induct) (simp_all split: option.splits)

lemma settled_kept_settle_calls: "settled_kept s (settle_calls i cs s)"
proof -
  have "results s j \<noteq> Pending \<Longrightarrow> results (settle_calls i cs s) j = results s j" for j
    by (cases "j = i") (simp_all add: settle_calls_settled settle_calls_other)
  then show ?thesis by (simp add: settled_kept_def)
qed

lemma settled_kept_op_lines: "settled_kept s (op_lines i ds s)"
proof (induction i ds s rule: op_lines.induct)
  case (1 i s)
  show ?case by simp
next
  case (2 i d ds s)
  let ?s1 = "effect (ProcessData i d) (log (''data received: '' @ d) s)"
  have a: "settled_kept s ?s1" by (simp add: settled_kept_def)
  show ?case
  proof (cases "processData (ops s i) d \<noteq> []")
    case True
    have "settled_kept ?s1 (settle_calls i (processData (ops s i) d) ?s1)"
      by (rule settled_kept_settle_calls)
    then have "settled_kept ?s1 (cleanup i (settle_calls i (processData (ops s i) d) ?s1))"
      by (simp add: settled_kept_def)
    with a True show ?thesis by (simp add: settled_kept_def)
  next
    case False
    with 2 have "settled_kept ?s1 (op_lines i ds ?s1)" by simp
    with a False show ?thesis by (simp add: settled_kept_def)
  qed
qed

lemma settled_kept_run_data: "settled_kept s (final (run_data l chunk s))"
  by (cases l) (simp_all add: run_data_def ready_onData_def op_onData_def settled_kept_op_lines
      settled_kept_same)

lemma settled_kept_emit_data: "settled_kept s (final (emit_data ls chunk s))"
proof (induction ls arbitrary: s)
  case Nil
  show ?case by simp
next
  case (Cons l ls)
  have a: "settled_kept s (final (run_data l chunk s))" by (rule settled_kept_run_data)
  show ?case
  proof (cases "run_data l chunk s")
    case (Returns s')
    with a Cons [of s'] show ?thesis by (auto intro: settled_kept_trans)
  next
    case (Throws e s')
    with a show ?thesis by simp
  qed
qed

lemma settled_kept_run_exit: "settled_kept s (run_exit l code signal s)"
  by (cases l) (simp_all add: run_exit_def proc_onExit_def ready_onExit_def op_onExit_def
      settled_kept_def)

lemma settled_kept_run_error: "settled_kept s (run_error l err s)"
  by (cases l) (simp_all add: run_error_def proc_onError_def ready_onError_def op_onError_def
      settled_kept_def)

lemma settled_kept_emit_exit: "settled_kept s (emit_exit ls code signal s)"
proof (induction ls arbitrary: s)
  case Nil
  show ?case by simp
next
  case (Cons l ls)
  from settled_kept_run_exit [of s l code signal] Cons [of "run_exit l code signal s"]
  show ?case by (auto intro: settled_kept_trans)
qed

lemma settled_kept_emit_error: "settled_kept s (emit_error ls err s)"
proof (induction ls arbitrary: s)
  case Nil
  show ?case by simp
next
  case (Cons l ls)
  from settled_kept_run_error [of s l err] Cons [of "run_error l err s"]
  show ?case by (auto intro: settled_kept_trans)
qed

lemma settled_kept_proc_exit: "settled_kept s (proc_exit p code signal s)"
proof -
  let ?s0 = "s\<lparr>procs := (procs s)(p := (procs s p)\<lparr>exited := True\<rparr>)\<rparr>"
  have "settled_kept s ?s0" by (simp add: settled_kept_def)
  moreover have "settled_kept ?s0 (emit_exit (exit_l (procs s p)) code signal ?s0)"
    by (rule settled_kept_emit_exit)
  ultimately show ?thesis unfolding proc_exit_def by (rule settled_kept_trans)
qed

lemma settled_kept_doOperation: "settled_kept s (snd (doOperation opn s))"
  by (simp add: doOperation_def settled_kept_def)

lemma settled_kept_run_task: "settled_kept (s\<lparr>queue := q\<rparr>) (run_task t (s\<lparr>queue := q\<rparr>))"
  by (cases t) (simp_all add: run_task_def settled_kept_def)

lemma settled_kept_step: "settled_kept s (final (step a s))"
proof (cases "enabled a s")
  case False
  then show ?thesis by (simp add: step_def)
next
  case True
  show ?thesis
  proof (cases a)
    case (CallDoOperation opn)
    with True show ?thesis by (simp add: step_def settled_kept_doOperation)
  next
    case CallShutdown
    with True show ?thesis by (simp add: step_def settled_kept_def)
  next
    case Microtask
    have "settled_kept s (s\<lparr>queue := tl (queue s)\<rparr>)" by (simp add: settled_kept_def)
    then have "settled_kept s (run_task (hd (queue s)) (s\<lparr>queue := tl (queue s)\<rparr>))"
      using settled_kept_run_task by (rule settled_kept_trans)
    with True Microtask show ?thesis by (simp add: step_def)
  next
    case (StdoutChunk p chunk)
    with True show ?thesis by (simp add: step_def stdout_chunk_def settled_kept_emit_data)
  next
    case (StderrChunk p chunk)
    with True show ?thesis by (simp add: step_def stderr_chunk_def settled_kept_emit_data)
  next
    case (Exited p code signal)
    with True show ?thesis by (simp add: step_def settled_kept_proc_exit)
  next
    case (Errored p err)
    with True show ?thesis by (simp add: step_def proc_error_def settled_kept_emit_error)
  next
    case (TimerFired i)
    with True show ?thesis by (simp add: step_def timer_fired_def settled_kept_def)
  qed
qed

lemma settled_kept_run: "settled_kept s (final (run acts s))"
proof (induction acts arbitrary: s)
  case Nil
  show ?case by simp
next
  case (Cons a acts)
  have a: "settled_kept s (final (step a s))" by (rule settled_kept_step)
  show ?case
  proof (cases "step a s")
    case (Returns s')
    with a Cons [of s'] show ?thesis by (auto intro: settled_kept_trans)
  next
    case (Throws e s')
    with a show ?thesis by simp
  qed
qed

lemma op_lines_single_trace: "trace (op_lines i [d] s) = trace s @ line_effects i d"
  by (simp add: line_effects_def)

lemma ready_lines_no_match:
  "\<forall>d\<in>set ds. \<not> str_includes d READY_SIGNATURE \<Longrightarrow>
   ready_lines r (ds @ rest) s =
     ready_lines r rest (s\<lparr>trace := trace s @ map (\<lambda>d. Log (''data received: '' @ d)) ds\<rparr>)"
  by (induction ds arbitrary: s) (simp_all add: log_def)


lemma no_listeners_prims [simp]:
  "no_listeners p (log l s) = no_listeners p s"
  "no_listeners p (reject_op i v s) = no_listeners p s"
  "no_listeners p (reject_ready r v s) = no_listeners p s"
  "no_listeners p (settle_shutdown k pv s) = no_listeners p s"
  "no_listeners p (clear_timer i s) = no_listeners p s"
  by (simp_all add: no_listeners_def)

















subsection \<open>The concrete session, evaluated\<close>

lemma ready_run_returns: "run ready_run init = Returns ready_state"
  unfolding ready_state_def ready_run_def get_volume_def
  by (simp add: model_defs)

lemma ready_state_fields:
  "ready ready_state" "mplayerProc ready_state = Some 0" "nprocs ready_state = 1"
  "\<not> exited (procs ready_state 0)" "queue ready_state = []"
  "stdout_l (procs ready_state 0) = [OpOnData 0]"
  "stderr_l (procs ready_state 0) = [OpOnData 0]"
  "exit_l (procs ready_state 0) = [ProcOnExit, OpOnExit 0]"
  "error_l (procs ready_state 0) = [ProcOnError, OpOnError 0]"
  "ops ready_state 0 = get_volume" "results ready_state 0 = Pending"
  "timers ready_state 0 = Armed" "nops ready_state = 1"
  "nreadys ready_state = 1" "nshuts ready_state = 1"
  unfolding ready_state_def ready_run_def get_volume_def
  by (simp_all add: model_defs)

lemma spawned_run_returns: "run spawned_run init = Returns spawned_state"
  unfolding spawned_state_def spawned_run_def get_volume_def
  by (simp add: model_defs)

lemma spawned_state_fields:
  "\<not> ready spawned_state" "mplayerProc spawned_state = Some 0"
  "readyP spawned_state 0 = Pending" "queue spawned_state = []"
  "stdout_l (procs spawned_state 0) = [ReadyOnData 0]"
  "stderr_l (procs spawned_state 0) = []"
  unfolding spawned_state_def spawned_run_def get_volume_def
  by (simp_all add: model_defs)

subsection \<open>Operations listen on the current process only\<close>

lemma first_or_none_append: "xs \<noteq> [] \<Longrightarrow> first_or_none a xs \<Longrightarrow> first_or_none a (xs @ ys)"
  by (cases xs) (simp_all add: first_or_none_def)

lemma first_or_none_remove:
  "first_or_none a xs \<Longrightarrow> b \<noteq> a \<Longrightarrow> first_or_none a (removeListener b xs)"
  by (cases xs) (auto simp: first_or_none_def)

lemma removeListener_nonempty:
  "first_or_none a xs \<Longrightarrow> xs \<noteq> [] \<Longrightarrow> b \<noteq> a \<Longrightarrow> removeListener b xs \<noteq> []"
  by (cases xs) (auto simp: first_or_none_def)

lemma in_removeListener: "x \<in> set (removeListener y xs) \<Longrightarrow> x \<in> set xs"
  using set_removeListener [of y xs] by auto

text \<open>The three notions under the primitives.\<close>

lemma op_listening_prims [simp]:
  "op_listening q (log l s) = op_listening q s"
  "op_listening q (effect e s) = op_listening q s"
  "op_listening q (enqueue t s) = op_listening q s"
  "op_listening q (resolve_op i v s) = op_listening q s"
  "op_listening q (reject_op i v s) = op_listening q s"
  "op_listening q (resolve_ready r s) = op_listening q s"
  "op_listening q (reject_ready r v s) = op_listening q s"
  "op_listening q (settle_shutdown k pv s) = op_listening q s"
  "op_listening q (clear_timer i s) = op_listening q s"
  "op_listening q (settle_calls i cs s) = op_listening q s"
  by (simp_all add: op_listening_def)

lemma op_listening_off:
  "op_listening q (off_data p st dl s) \<Longrightarrow> op_listening q s"
  "op_listening q (off_exit p xl s) \<Longrightarrow> op_listening q s"
  "op_listening q (off_error p el s) \<Longrightarrow> op_listening q s"
  by (auto simp: op_listening_def dest: in_removeListener split: if_splits)

lemma queued_prims [simp]:
  "spawn_queued (log l s) = spawn_queued s" "ready_queued (log l s) = ready_queued s"
  "spawn_queued (effect e s) = spawn_queued s" "ready_queued (effect e s) = ready_queued s"
  "spawn_queued (resolve_op i v s) = spawn_queued s"
  "ready_queued (resolve_op i v s) = ready_queued s"
  "spawn_queued (reject_op i v s) = spawn_queued s"
  "ready_queued (reject_op i v s) = ready_queued s"
  "spawn_queued (clear_timer i s) = spawn_queued s"
  "ready_queued (clear_timer i s) = ready_queued s"
  "spawn_queued (settle_calls i cs s) = spawn_queued s"
  "ready_queued (settle_calls i cs s) = ready_queued s"
  "spawn_queued (on_data p st dl s) = spawn_queued s"
  "ready_queued (on_data p st dl s) = ready_queued s"
  "spawn_queued (on_exit p xl s) = spawn_queued s"
  "ready_queued (on_exit p xl s) = ready_queued s"
  "spawn_queued (on_error p el s) = spawn_queued s"
  "ready_queued (on_error p el s) = ready_queued s"
  "spawn_queued (off_data p st dl s) = spawn_queued s"
  "ready_queued (off_data p st dl s) = ready_queued s"
  "spawn_queued (off_exit p xl s) = spawn_queued s"
  "ready_queued (off_exit p xl s) = ready_queued s"
  "spawn_queued (off_error p el s) = spawn_queued s"
  "ready_queued (off_error p el s) = ready_queued s"
  "spawn_queued (cleanup i s) = spawn_queued s"
  "ready_queued (cleanup i s) = ready_queued s"
  by (simp_all add: spawn_queued_def ready_queued_def)

lemma queued_settlers [simp]:
  "spawn_queued (resolve_ready r s) = spawn_queued s"
  "spawn_queued (reject_ready r v s) = spawn_queued s"
  "ready_queued (reject_ready r v s) = ready_queued s"
  "ready_queued (settle_shutdown k pv s) = ready_queued s"
  by (auto simp: spawn_queued_def ready_queued_def resolve_ready_def reject_ready_def
      settle_shutdown_def enqueue_def split: option.splits)

text \<open>The wiring depends on the handle and the listeners only.\<close>

lemma wiring_prims [simp]:
  "wiring (log l s) = wiring s"
  "wiring (effect e s) = wiring s"
  "wiring (enqueue t s) = wiring s"
  "wiring (resolve_op i v s) = wiring s"
  "wiring (reject_op i v s) = wiring s"
  "wiring (resolve_ready r s) = wiring s"
  "wiring (reject_ready r v s) = wiring s"
  "wiring (settle_shutdown k pv s) = wiring s"
  "wiring (clear_timer i s) = wiring s"
  "wiring (settle_calls i cs s) = wiring s"
  by (simp_all add: wiring_def)

lemma wiring_off_data: "wiring s \<Longrightarrow> wiring (off_data p st dl s)"
  unfolding wiring_def
  by (intro conjI allI impI) (auto dest: op_listening_off)

lemma wiring_off_exit:
  assumes "wiring s" and "xl \<noteq> ProcOnExit"
  shows "wiring (off_exit p xl s)"
proof -
  have ne: "removeListener xl (exit_l (procs s q)) \<noteq> []" if "exit_l (procs s q) \<noteq> []" for q
    using assms that removeListener_nonempty [of ProcOnExit "exit_l (procs s q)" xl]
    by (simp add: wiring_def)
  show ?thesis
    using assms ne unfolding wiring_def
    by (intro conjI allI impI) (auto dest: op_listening_off simp: first_or_none_remove)
qed

lemma wiring_off_error:
  assumes "wiring s" and "el \<noteq> ProcOnError"
  shows "wiring (off_error p el s)"
proof -
  have ne: "removeListener el (error_l (procs s q)) \<noteq> []" if "error_l (procs s q) \<noteq> []" for q
    using assms that removeListener_nonempty [of ProcOnError "error_l (procs s q)" el]
    by (simp add: wiring_def)
  show ?thesis
    using assms ne unfolding wiring_def
    by (intro conjI allI impI) (auto dest: op_listening_off simp: first_or_none_remove)
qed

lemma wiring_cleanup: "wiring s \<Longrightarrow> wiring (cleanup i s)"
  by (simp add: cleanup_def wiring_off_data wiring_off_exit wiring_off_error
      split: option.splits)

lemma wiring_on_current:
  assumes "wiring s" and "mplayerProc s = Some p"
  shows "wiring (on_data p st dl s)" "wiring (on_exit p xl s)" "wiring (on_error p el s)"
  using assms unfolding wiring_def op_listening_def
  by (auto simp: first_or_none_append)

lemma session_inv_listeners:
  assumes "mplayerProc s' = mplayerProc s" and "ready s' = ready s" and "queue s' = queue s"
    and "\<And>q. stdout_l (procs s' q) = stdout_l (procs s q)"
    and "\<And>q. stderr_l (procs s' q) = stderr_l (procs s q)"
    and "\<And>q. exit_l (procs s' q) = exit_l (procs s q)"
    and "\<And>q. error_l (procs s' q) = error_l (procs s q)"
  shows "session_inv s' = session_inv s"
  using assms
  by (simp add: session_inv_def wiring_def op_listening_def spawn_queued_def ready_queued_def)

lemma session_inv_cong:
  "mplayerProc s' = mplayerProc s \<Longrightarrow> ready s' = ready s \<Longrightarrow> procs s' = procs s \<Longrightarrow>
   queue s' = queue s \<Longrightarrow> session_inv s' = session_inv s"
  by (rule session_inv_listeners) simp_all

lemma session_inv_prims [simp]:
  "session_inv (log l s) = session_inv s"
  "session_inv (effect e s) = session_inv s"
  "session_inv (resolve_op i v s) = session_inv s"
  "session_inv (reject_op i v s) = session_inv s"
  "session_inv (clear_timer i s) = session_inv s"
  "session_inv (settle_calls i cs s) = session_inv s"
  by (rule session_inv_cong; simp)+

lemma spawn_queued_cong: "queue s' = queue s \<Longrightarrow> spawn_queued s' = spawn_queued s"
  by (simp add: spawn_queued_def)

lemma session_inv_cleanup: "session_inv s \<Longrightarrow> session_inv (cleanup i s)"
proof -
  assume a: "session_inv s"
  have "op_listening q (cleanup i s) \<Longrightarrow> op_listening q s" for q
    by (auto simp: cleanup_def dest!: op_listening_off split: option.splits)
  with a show ?thesis by (auto simp: session_inv_def wiring_cleanup)
qed

lemma session_inv_op_lines: "session_inv s \<Longrightarrow> session_inv (op_lines i ds s)"
  by (induction i ds s rule: op_lines.induct) (simp_all add: session_inv_cleanup)

lemma spawn_queued_op_lines [simp]: "spawn_queued (op_lines i ds s) = spawn_queued s"
  by (induction i ds s rule: op_lines.induct) simp_all

lemma exec_all_inv:
  "session_inv (final (exec_all cmds s)) = session_inv s"
proof (induction cmds arbitrary: s)
  case Nil
  show ?case by simp
next
  case (Cons args cmds)
  have e: "session_inv (final (exec args s)) = session_inv s"
    by (simp add: exec_def split: option.splits)
  show ?case
  proof (cases "exec args s")
    case (Returns s')
    with e Cons [of s'] show ?thesis by simp
  next
    case (Throws x s')
    with e show ?thesis by simp
  qed
qed

lemma session_inv_op_start:
  assumes inv: "session_inv s" and ns: "\<not> spawn_queued s"
  shows "session_inv (op_start i s)"
proof (cases "mplayerProc s")
  case None
  let ?s0 = "if timeout (ops s i) \<noteq> 0 then s\<lparr>timers := (timers s)(i := Armed)\<rparr> else s"
  have "session_inv ?s0 = session_inv s" by (rule session_inv_cong) simp_all
  with inv None show ?thesis by (simp add: op_start_def)
next
  case (Some p)
  let ?s0 = "if timeout (ops s i) \<noteq> 0 then s\<lparr>timers := (timers s)(i := Armed)\<rparr> else s"
  let ?s1 = "on_error p (OpOnError i) (on_exit p (OpOnExit i)
               (on_data p Stderr (OpOnData i) (on_data p Stdout (OpOnData i) ?s0)))"
  have "session_inv ?s0 = session_inv s" by (rule session_inv_cong) simp_all
  with inv have i0: "session_inv ?s0" by simp
  have q0: "\<not> spawn_queued ?s0" using ns by (simp add: spawn_queued_def)
  have h0: "mplayerProc ?s0 = Some p" using Some by simp
  from i0 have w0: "wiring ?s0" by (simp add: session_inv_def)
  have w1: "wiring ?s1"
    using w0 h0 by (intro wiring_on_current) simp_all
  have "session_inv ?s1"
    using i0 q0 h0 w1 by (simp add: session_inv_def ready_queued_def)
  then have "session_inv (final (exec_all (op (ops s i)) (effect (OpCalled i) ?s1)))"
    by (simp add: exec_all_inv)
  with Some show ?thesis
    by (cases "exec_all (op (ops s i)) (effect (OpCalled i) ?s1)") (simp_all add: op_start_def)
qed

lemma quiet_session_inv: "quiet s \<Longrightarrow> session_inv s"
  by (auto simp: quiet_def session_inv_def wiring_def)

lemma wiring_completion: "wiring s \<Longrightarrow> wiring (handleProcCompletion s)"
  unfolding wiring_def handleProcCompletion_def op_listening_def
  by (auto simp: first_or_none_def split: option.splits)

lemma quiet_completion:
  "wiring s \<Longrightarrow> \<not> ready_queued s \<Longrightarrow> quiet (handleProcCompletion s)"
proof -
  assume w: "wiring s" and q: "\<not> ready_queued s"
  have "mplayerProc (handleProcCompletion s) = None" "\<not> ready (handleProcCompletion s)"
    "queue (handleProcCompletion s) = queue s"
    by (simp_all add: handleProcCompletion_def split: option.splits)
  with wiring_completion [OF w] q show ?thesis by (simp add: quiet_def ready_queued_def)
qed

lemma quiet_prims [simp]:
  "quiet (log l s) = quiet s"
  "quiet (reject_op i v s) = quiet s"
  "quiet (clear_timer i s) = quiet s"
  "quiet (reject_ready r v s) = quiet s"
  "quiet (settle_shutdown k pv s) = quiet s"
  by (simp_all add: quiet_def)

lemma quiet_run_exit: "quiet s \<Longrightarrow> quiet (run_exit l code signal s)"
  by (cases l)
    (simp_all add: run_exit_def proc_onExit_def ready_onExit_def op_onExit_def,
      simp add: quiet_def quiet_completion [unfolded quiet_def])

lemma quiet_run_error: "quiet s \<Longrightarrow> quiet (run_error l err s)"
  by (cases l)
    (simp_all add: run_error_def proc_onError_def ready_onError_def op_onError_def,
      simp add: quiet_def quiet_completion [unfolded quiet_def])

lemma quiet_emit_exit: "quiet s \<Longrightarrow> quiet (emit_exit ls code signal s)"
  by (induction ls arbitrary: s) (simp_all add: quiet_run_exit)

lemma quiet_emit_error: "quiet s \<Longrightarrow> quiet (emit_error ls err s)"
  by (induction ls arbitrary: s) (simp_all add: quiet_run_error)

lemma session_inv_emit_exit:
  assumes inv: "session_inv s" and q: "queue s = []"
  shows "session_inv (emit_exit (exit_l (procs s p)) code signal s)"
proof (cases "exit_l (procs s p)")
  case Nil
  with inv show ?thesis by simp
next
  case (Cons l ls)
  from inv have w: "wiring s" by (simp add: session_inv_def)
  then have "first_or_none ProcOnExit (exit_l (procs s p))" by (simp add: wiring_def)
  with Cons have l: "l = ProcOnExit" by (simp add: first_or_none_def)
  from q have "\<not> ready_queued s" by (simp add: ready_queued_def)
  with w have "quiet (run_exit ProcOnExit code signal s)"
    by (simp add: run_exit_def proc_onExit_def quiet_completion)
  then have "quiet (emit_exit ls code signal (run_exit ProcOnExit code signal s))"
    by (rule quiet_emit_exit)
  with Cons l show ?thesis by (simp add: quiet_session_inv)
qed

lemma session_inv_emit_error:
  assumes inv: "session_inv s" and q: "queue s = []"
  shows "session_inv (emit_error (error_l (procs s p)) err s)"
proof (cases "error_l (procs s p)")
  case Nil
  with inv show ?thesis by simp
next
  case (Cons l ls)
  from inv have w: "wiring s" by (simp add: session_inv_def)
  then have "first_or_none ProcOnError (error_l (procs s p))" by (simp add: wiring_def)
  with Cons have l: "l = ProcOnError" by (simp add: first_or_none_def)
  from q have "\<not> ready_queued s" by (simp add: ready_queued_def)
  with w have "quiet (run_error ProcOnError err s)"
    by (simp add: run_error_def proc_onError_def quiet_completion)
  then have "quiet (emit_error ls err (run_error ProcOnError err s))"
    by (rule quiet_emit_error)
  with Cons l show ?thesis by (simp add: quiet_session_inv)
qed

lemma session_inv_proc_exit:
  assumes "session_inv s" and "queue s = []"
  shows "session_inv (proc_exit p code signal s)"
proof -
  let ?s0 = "s\<lparr>procs := (procs s)(p := (procs s p)\<lparr>exited := True\<rparr>)\<rparr>"
  have "session_inv ?s0 = session_inv s"
    by (rule session_inv_listeners) simp_all
  with assms have "session_inv ?s0" "queue ?s0 = []" by simp_all
  from session_inv_emit_exit [OF this, of p code signal] show ?thesis
    by (simp add: proc_exit_def)
qed

lemma session_inv_proc_error:
  assumes "session_inv s" and "queue s = []"
  shows "session_inv (final (proc_error p err s))"
  using assms session_inv_emit_error [OF assms, of p err] by (simp add: proc_error_def)

text \<open>Data events: nothing is spawned from them.\<close>

lemma steady_ready_lines: "steady s \<Longrightarrow> steady (final (ready_lines r ds s))"
proof (induction r ds s rule: ready_lines.induct)
  case (1 r s)
  then show ?case by simp
next
  case (2 r d ds s)
  let ?s0 = "log (''data received: '' @ d) s"
  from 2(2) have s0: "steady ?s0" by (simp add: steady_def)
  show ?case
  proof (cases "str_includes d READY_SIGNATURE")
    case False
    with 2(1) s0 show ?thesis by simp
  next
    case True
    show ?thesis
    proof (cases "mplayerProc s")
      case None
      with True s0 show ?thesis by simp
    next
      case (Some p)
      let ?s1 = "off_error p (ReadyOnError r) (off_exit p (ReadyOnExit r)
                   (off_data p Stdout (ReadyOnData r) ?s0))"
      let ?s2 = "(log ''MPLAYER ready'' ?s1)\<lparr>ready := True\<rparr>"
      from s0 have w0: "wiring ?s0" by (simp add: steady_def session_inv_def)
      have w1: "wiring ?s1"
        by (intro wiring_off_error wiring_off_exit wiring_off_data w0) simp_all
      have ol: "op_listening q ?s1 \<Longrightarrow> op_listening q s" for q
        by (auto dest!: op_listening_off)
      have w2: "wiring ?s2" using w1 by (simp add: wiring_def op_listening_def)
      have h2: "mplayerProc ?s2 = Some p" using Some by simp
      have q2: "queue ?s2 = queue s" by simp
      from 2(2) have nq: "\<not> spawn_queued s" and rq: "ready_queued s \<longrightarrow> mplayerProc s \<noteq> None"
        by (simp_all add: steady_def session_inv_def)
      have "session_inv ?s2"
        using w2 h2 q2 nq by (simp add: session_inv_def spawn_queued_def ready_queued_def)
      moreover have "\<not> spawn_queued ?s2" using nq q2 by (simp add: spawn_queued_def)
      ultimately have "steady ?s2" by (simp add: steady_def)
      then have "steady (resolve_ready r ?s2)"
        using h2
        by (auto simp: steady_def session_inv_def ready_queued_def)
      with True Some show ?thesis by simp
    qed
  qed
qed

lemma steady_run_data: "steady s \<Longrightarrow> steady (final (run_data l chunk s))"
  by (cases l)
    (simp_all add: run_data_def ready_onData_def op_onData_def steady_ready_lines,
      simp add: steady_def session_inv_op_lines)

lemma steady_emit_data: "steady s \<Longrightarrow> steady (final (emit_data ls chunk s))"
proof (induction ls arbitrary: s)
  case Nil
  then show ?case by simp
next
  case (Cons l ls)
  from Cons.prems have "steady (final (run_data l chunk s))" by (rule steady_run_data)
  then show ?case using Cons.IH by (cases "run_data l chunk s") simp_all
qed

lemma session_inv_emit_data:
  "session_inv s \<Longrightarrow> queue s = [] \<Longrightarrow> session_inv (final (emit_data ls chunk s))"
  using steady_emit_data [of s ls chunk] by (simp add: steady_def spawn_queued_def)

text \<open>The calls and the microtasks.\<close>

lemma session_inv_shutdown: "session_inv s \<Longrightarrow> session_inv (snd (shutdown s))"
proof (cases "mplayerProc s")
  case None
  assume a: "session_inv s"
  have "session_inv (snd (shutdown s)) = session_inv s"
    using None by (intro session_inv_cong) (simp_all add: shutdown_def)
  with a show ?thesis by simp
next
  case (Some p)
  assume a: "session_inv s"
  let ?s0 = "s\<lparr>nshuts := Suc (nshuts s), shutP := (shutP s)(nshuts s := Pending),
                shut_then := (shut_then s)(nshuts s := None)\<rparr>"
  let ?s1 = "on_error p (ShutdownOnError (nshuts s)) (on_exit p (ShutdownOnExit (nshuts s)) ?s0)"
  have "session_inv ?s0 = session_inv s" by (rule session_inv_cong) simp_all
  with a have i0: "session_inv ?s0" by simp
  then have w0: "wiring ?s0" by (simp add: session_inv_def)
  have h0: "mplayerProc ?s0 = Some p" using Some by simp
  have w1: "wiring ?s1" using w0 h0 by (intro wiring_on_current) simp_all
  have ol: "op_listening q ?s1 = op_listening q s" for q by (simp add: op_listening_def)
  have "session_inv ?s1"
    using a w1 ol Some by (simp add: session_inv_def spawn_queued_def ready_queued_def)
  with Some show ?thesis by (simp add: shutdown_def)
qed

lemma shutdown_facts:
  "ready (snd (shutdown s)) = ready s" "mplayerProc (snd (shutdown s)) = mplayerProc s"
  "queue (snd (shutdown s)) = queue s" "readyP (snd (shutdown s)) = readyP s"
  "ready_then (snd (shutdown s)) = ready_then s"
  "shutP (snd (shutdown s)) (fst (shutdown s)) =
     (if mplayerProc s = None then Resolved JUndefined else Pending)"
  by (simp_all add: shutdown_def split: option.splits)

lemma session_inv_spawn:
  assumes w: "wiring s" and nr: "\<not> ready s" and nq: "\<not> ready_queued s"
    and nol: "\<And>q. \<not> op_listening q s"
  shows "session_inv (spawnMPlayer r s)"
proof -
  let ?s' = "spawnMPlayer r s"
  have h: "mplayerProc ?s' = Some (nprocs s)" "ready ?s' = ready s" "queue ?s' = queue s"
    by (simp_all add: spawnMPlayer_def)
  have lists:
    "exit_l (procs ?s' q) =
       (if q = nprocs s then [ProcOnExit, ReadyOnExit r] else exit_l (procs s q))"
    "error_l (procs ?s' q) =
       (if q = nprocs s then [ProcOnError, ReadyOnError r] else error_l (procs s q))"
    "stdout_l (procs ?s' q) = (if q = nprocs s then [ReadyOnData r] else stdout_l (procs s q))"
    "stderr_l (procs ?s' q) = (if q = nprocs s then [] else stderr_l (procs s q))" for q
    by (simp_all add: spawnMPlayer_def no_proc_def)
  have nol': "\<not> op_listening q ?s'" for q
    using nol [of q] by (simp add: op_listening_def lists)
  have "wiring ?s'"
    using w nol' unfolding wiring_def by (simp add: lists h first_or_none_def)
  then show ?thesis
    using nr nq nol' h by (simp add: session_inv_def ready_queued_def)
qed

lemma session_inv_enqueue_spawn:
  assumes "session_inv s" and "mplayerProc s = None"
  shows "session_inv (enqueue (SpawnMPlayer r) s)"
  using assms
  by (auto simp: session_inv_def wiring_def spawn_queued_def ready_queued_def)

lemma session_inv_enqueue_ready:
  assumes "session_inv s" and "mplayerProc s \<noteq> None" and "\<not> spawn_queued s"
  shows "session_inv (enqueue (OpReady i) s)"
  using assms
  by (auto simp: session_inv_def spawn_queued_def ready_queued_def)

lemma session_inv_enqueue_not_ready:
  "session_inv s \<Longrightarrow> session_inv (enqueue (OpNotReady i v) s)"
  by (auto simp: session_inv_def spawn_queued_def ready_queued_def)

lemma readyMPlayer_facts:
  "mplayerProc (snd (readyMPlayer s)) = mplayerProc s"
  "ready (snd (readyMPlayer s)) = ready s"
  "queue (snd (readyMPlayer s)) =
     (if mplayerProc s = None then queue s @ [SpawnMPlayer (nreadys s)] else queue s)"
  "readyP (snd (readyMPlayer s)) (fst (readyMPlayer s)) =
     (if ready s \<and> mplayerProc s \<noteq> None then Resolved JUndefined else Pending)"
  by (auto simp: readyMPlayer_def then_spawn_def shutdown_def resolve_ready_def enqueue_def
      on_exit_def on_error_def effect_def split: option.splits)

lemma session_inv_readyMPlayer: "session_inv s \<Longrightarrow> session_inv (snd (readyMPlayer s))"
proof -
  assume a: "session_inv s"
  let ?s0 = "s\<lparr>nreadys := Suc (nreadys s), readyP := (readyP s)(nreadys s := Pending),
               ready_then := (ready_then s)(nreadys s := None)\<rparr>"
  let ?s1 = "if ready s \<and> mplayerProc s \<noteq> None then resolve_ready (nreadys s) ?s0 else ?s0"
  have "session_inv ?s1 = session_inv s"
    by (rule session_inv_cong) (simp_all add: resolve_ready_def)
  with a have "session_inv ?s1" by simp
  then have i2: "session_inv (snd (shutdown ?s1))" by (rule session_inv_shutdown)
  have h1: "mplayerProc ?s1 = mplayerProc s" by simp
  show ?thesis
  proof (cases "mplayerProc s")
    case None
    with h1 have "shutP (snd (shutdown ?s1)) (fst (shutdown ?s1)) = Resolved JUndefined"
      "mplayerProc (snd (shutdown ?s1)) = None"
      by (simp_all add: shutdown_facts)
    with i2 show ?thesis
      by (simp add: readyMPlayer_def then_spawn_def session_inv_enqueue_spawn)
  next
    case (Some p)
    with h1 have "shutP (snd (shutdown ?s1)) (fst (shutdown ?s1)) = Pending"
      by (simp add: shutdown_facts)
    moreover have "session_inv (snd (shutdown ?s1)\<lparr>shut_then := f\<rparr>) =
        session_inv (snd (shutdown ?s1))" for f
      by (rule session_inv_cong) simp_all
    ultimately show ?thesis using i2 by (simp add: readyMPlayer_def then_spawn_def)
  qed
qed

lemma session_inv_doOperation: "session_inv s \<Longrightarrow> session_inv (snd (doOperation opn s))"
proof -
  assume a: "session_inv s"
  let ?s0 = "s\<lparr>nops := Suc (nops s), ops := (ops s)(nops s := opn),
               results := (results s)(nops s := Pending),
               timers := (timers s)(nops s := NoTimer)\<rparr>"
  let ?rs = "readyMPlayer ?s0"
  have "session_inv ?s0 = session_inv s" by (rule session_inv_cong) simp_all
  with a have i0: "session_inv ?s0" by simp
  then have i1: "session_inv (snd ?rs)" by (rule session_inv_readyMPlayer)
  have c: "session_inv (snd ?rs\<lparr>ready_then := f\<rparr>) = session_inv (snd ?rs)" for f
    by (rule session_inv_cong) simp_all
  show ?thesis
  proof (cases "readyP (snd ?rs) (fst ?rs)")
    case Pending
    with i1 c show ?thesis by (simp add: doOperation_def then_op_def)
  next
    case (Resolved v)
    then have r: "ready ?s0 \<and> mplayerProc ?s0 \<noteq> None"
      by (simp add: readyMPlayer_facts split: if_splits)
    with i0 have "\<not> spawn_queued ?s0" by (simp add: session_inv_def)
    with r have "\<not> spawn_queued (snd ?rs)" "mplayerProc (snd ?rs) \<noteq> None"
      by (simp_all add: spawn_queued_def readyMPlayer_facts)
    with i1 Resolved show ?thesis
      by (simp add: doOperation_def then_op_def session_inv_enqueue_ready)
  next
    case (Rejected v)
    with i1 show ?thesis
      by (simp add: doOperation_def then_op_def session_inv_enqueue_not_ready)
  qed
qed

lemma session_inv_run_task:
  assumes inv: "session_inv s" and q: "queue s = t # rest"
  shows "session_inv (run_task t (s\<lparr>queue := rest\<rparr>))"
proof -
  let ?s0 = "s\<lparr>queue := rest\<rparr>"
  from inv have w0: "wiring ?s0" by (simp add: session_inv_def wiring_def op_listening_def)
  have ol: "op_listening p ?s0 = op_listening p s" for p by (simp add: op_listening_def)
  have i0: "session_inv ?s0"
    using inv q w0 ol by (auto simp: session_inv_def spawn_queued_def ready_queued_def)
  show ?thesis
  proof (cases t)
    case (SpawnMPlayer r)
    with q have "spawn_queued s" by (auto simp: spawn_queued_def)
    with inv have "\<not> ready s" "\<not> ready_queued s" "\<And>p. \<not> op_listening p s"
      by (simp_all add: session_inv_def)
    with q have "\<not> ready ?s0" "\<not> ready_queued ?s0" "\<And>p. \<not> op_listening p ?s0"
      by (auto simp: ready_queued_def ol)
    from session_inv_spawn [OF w0 this] SpawnMPlayer show ?thesis by (simp add: run_task_def)
  next
    case (OpReady i)
    with q have "ready_queued s" by (auto simp: ready_queued_def)
    with inv have "\<not> spawn_queued s" by (auto simp: session_inv_def)
    with q have "\<not> spawn_queued ?s0" by (auto simp: spawn_queued_def)
    from session_inv_op_start [OF i0 this] OpReady show ?thesis by (simp add: run_task_def)
  next
    case (OpNotReady i v)
    with i0 show ?thesis by (simp add: run_task_def)
  qed
qed

lemma session_inv_step: "session_inv s \<Longrightarrow> session_inv (final (step a s))"
proof (cases "enabled a s")
  case False
  assume "session_inv s"
  with False show ?thesis by (simp add: step_def)
next
  case True
  assume inv: "session_inv s"
  show ?thesis
  proof (cases a)
    case (CallDoOperation opn)
    with inv show ?thesis by (simp add: step_def session_inv_doOperation)
  next
    case CallShutdown
    with inv show ?thesis by (simp add: step_def session_inv_shutdown)
  next
    case Microtask
    with True obtain t rest where q: "queue s = t # rest"
      by (cases "queue s") (simp_all add: enabled_def)
    from session_inv_run_task [OF inv q] Microtask True q show ?thesis by (simp add: step_def)
  next
    case (StdoutChunk p chunk)
    with True inv show ?thesis
      by (simp add: step_def enabled_def stdout_chunk_def session_inv_emit_data)
  next
    case (StderrChunk p chunk)
    with True inv show ?thesis
      by (simp add: step_def enabled_def stderr_chunk_def session_inv_emit_data)
  next
    case (Exited p code signal)
    with True inv show ?thesis
      by (simp add: step_def enabled_def session_inv_proc_exit)
  next
    case (Errored p err)
    with True inv show ?thesis
      by (simp add: step_def enabled_def session_inv_proc_error)
  next
    case (TimerFired i)
    have "session_inv (s\<lparr>timers := (timers s)(i := Fired)\<rparr>) = session_inv s"
      by (rule session_inv_cong) simp_all
    with TimerFired True inv show ?thesis by (simp add: step_def timer_fired_def)
  qed
qed

lemma session_inv_run: "session_inv s \<Longrightarrow> session_inv (final (run acts s))"
proof (induction acts arbitrary: s)
  case Nil
  then show ?case by simp
next
  case (Cons a acts)
  from Cons.prems have "session_inv (final (step a s))" by (rule session_inv_step)
  then show ?case using Cons.IH by (cases "step a s") simp_all
qed

lemma session_inv_init: "session_inv init"
  by (simp add: session_inv_def wiring_def op_listening_def spawn_queued_def ready_queued_def
      init_def no_proc_def first_or_none_def)

subsection \<open>The order of effects\<close>

lemma calm_simps [simp]:
  "calm []" "calm (e # ext) \<longleftrightarrow> (\<forall>i. e \<noteq> OpCalled i) \<and> calm ext"
  "calm (ext @ ext') \<longleftrightarrow> calm ext \<and> calm ext'"
  by (auto simp: calm_def)

lemma calm_subscriptions [simp]: "calm (subscriptions p i)"
  by (simp add: subscriptions_def)

lemma subscribed_Nil: "subscribed []"
  by (simp add: subscribed_def)

lemma subscribed_calm:
  assumes "subscribed tr" and "calm ext"
  shows "subscribed (tr @ ext)"
  unfolding subscribed_def
proof (intro allI impI)
  fix pre post i
  assume eq: "tr @ ext = pre @ OpCalled i # post"
  then obtain us where "tr = pre @ us \<and> us @ ext = OpCalled i # post \<or>
                        tr @ us = pre \<and> ext = us @ OpCalled i # post"
    by (auto simp: append_eq_append_conv2)
  then show "\<exists>p pre'. pre = pre' @ subscriptions p i"
  proof
    assume a: "tr = pre @ us \<and> us @ ext = OpCalled i # post"
    show ?thesis
    proof (cases us)
      case Nil
      with a assms(2) show ?thesis by (auto simp: calm_def)
    next
      case (Cons u us')
      with a have "tr = pre @ OpCalled i # us'" by simp
      with assms(1) show ?thesis by (auto simp: subscribed_def)
    qed
  next
    assume "tr @ us = pre \<and> ext = us @ OpCalled i # post"
    with assms(2) show ?thesis by (auto simp: calm_def)
  qed
qed

lemma subscribed_start:
  assumes "subscribed tr" and "calm ext"
  shows "subscribed (tr @ subscriptions p i @ OpCalled i # ext)"
  unfolding subscribed_def
proof (intro allI impI)
  fix pre post j
  define tr1 where "tr1 = tr @ subscriptions p i"
  have s1: "subscribed tr1" unfolding tr1_def using assms(1) by (rule subscribed_calm) simp
  assume "tr @ subscriptions p i @ OpCalled i # ext = pre @ OpCalled j # post"
  then have eq: "tr1 @ OpCalled i # ext = pre @ OpCalled j # post" by (simp add: tr1_def)
  then obtain us where "tr1 = pre @ us \<and> us @ OpCalled i # ext = OpCalled j # post \<or>
                        tr1 @ us = pre \<and> OpCalled i # ext = us @ OpCalled j # post"
    by (auto simp: append_eq_append_conv2)
  then show "\<exists>q pre'. pre = pre' @ subscriptions q j"
  proof
    assume a: "tr1 = pre @ us \<and> us @ OpCalled i # ext = OpCalled j # post"
    show ?thesis
    proof (cases us)
      case Nil
      with a show ?thesis by (auto simp: tr1_def)
    next
      case (Cons u us')
      with a have "tr1 = pre @ OpCalled j # us'" by simp
      with s1 show ?thesis unfolding subscribed_def by blast
    qed
  next
    assume a: "tr1 @ us = pre \<and> OpCalled i # ext = us @ OpCalled j # post"
    show ?thesis
    proof (cases us)
      case Nil
      with a show ?thesis by (auto simp: tr1_def)
    next
      case (Cons u us')
      with a have "ext = us' @ OpCalled j # post" by simp
      with assms(2) show ?thesis by (auto simp: calm_def)
    qed
  qed
qed

lemma calm_to_refl [simp]: "calm_to s s"
  by (simp add: calm_to_def)

lemma calm_to_trans: "calm_to s s' \<Longrightarrow> calm_to s' s'' \<Longrightarrow> calm_to s s''"
  by (auto simp: calm_to_def)

lemma calm_to_same: "trace s' = trace s \<Longrightarrow> calm_to s s'"
  by (simp add: calm_to_def)

lemma calm_to_subscribed: "calm_to s s' \<Longrightarrow> subscribed (trace s) \<Longrightarrow> subscribed (trace s')"
  by (auto simp: calm_to_def subscribed_calm)

lemma calm_to_prims [simp]:
  "calm_to s (log l s)"
  "calm_to s (enqueue t s)"
  "calm_to s (on_data p st dl s)"
  "calm_to s (on_exit p xl s)"
  "calm_to s (on_error p el s)"
  "calm_to s (off_data p st dl s)"
  "calm_to s (off_exit p xl s)"
  "calm_to s (off_error p el s)"
  "calm_to s (resolve_op i v s)"
  "calm_to s (reject_op i v s)"
  "calm_to s (resolve_ready r s)"
  "calm_to s (reject_ready r v s)"
  "calm_to s (settle_shutdown k pv s)"
  "calm_to s (clear_timer i s)"
  "calm_to s (settle_calls i cs s)"
  "calm_to s (cleanup i s)"
  by (simp_all add: calm_to_def)

lemma calm_to_exec: "calm_to s (final (exec args s))"
  by (simp add: exec_def calm_to_def split: option.splits)

lemma calm_to_exec_all: "calm_to s (final (exec_all cmds s))"
proof (induction cmds arbitrary: s)
  case Nil
  show ?case by simp
next
  case (Cons args cmds)
  have a: "calm_to s (final (exec args s))" by (rule calm_to_exec)
  show ?case
  proof (cases "exec args s")
    case (Returns s')
    with a Cons [of s'] show ?thesis by (auto intro: calm_to_trans)
  next
    case (Throws e s')
    with a show ?thesis by simp
  qed
qed

lemma calm_to_op_lines: "calm_to s (op_lines i ds s)"
proof (induction i ds s rule: op_lines.induct)
  case (1 i s)
  show ?case by simp
next
  case (2 i d ds s)
  let ?s1 = "effect (ProcessData i d) (log (''data received: '' @ d) s)"
  have a: "calm_to s ?s1" by (simp add: calm_to_def)
  show ?case
  proof (cases "processData (ops s i) d \<noteq> []")
    case True
    have "trace (cleanup i (settle_calls i (processData (ops s i) d) ?s1)) = trace ?s1"
      by simp
    with a True show ?thesis by (simp add: calm_to_def)
  next
    case False
    with 2 have "calm_to ?s1 (op_lines i ds ?s1)" by simp
    with a have "calm_to s (op_lines i ds ?s1)" by (rule calm_to_trans)
    with False show ?thesis by simp
  qed
qed

lemma calm_to_ready_lines: "calm_to s (final (ready_lines r ds s))"
proof (induction r ds s rule: ready_lines.induct)
  case (1 r s)
  show ?case by simp
next
  case (2 r d ds s)
  let ?s0 = "log (''data received: '' @ d) s"
  have a: "calm_to s ?s0" by simp
  show ?case
  proof (cases "str_includes d READY_SIGNATURE")
    case False
    with 2 have "calm_to ?s0 (final (ready_lines r ds ?s0))" by simp
    with a have "calm_to s (final (ready_lines r ds ?s0))" by (rule calm_to_trans)
    with False show ?thesis by simp
  next
    case True
    then show ?thesis by (cases "mplayerProc s") (simp_all add: calm_to_def)
  qed
qed

lemma calm_to_supervisor:
  "calm_to s (snd (shutdown s))"
  "calm_to s (handleProcCompletion s)"
  "calm_to s (proc_onExit code signal s)"
  "calm_to s (proc_onError err s)"
  "calm_to s (spawnMPlayer r s)"
  "calm_to s (timer_fired i s)"
  by (simp_all add: calm_to_def shutdown_def handleProcCompletion_def proc_onExit_def
      proc_onError_def spawnMPlayer_def timer_fired_def split: option.splits)

lemma trace_then [simp]:
  "trace (then_spawn r ks) = trace (snd ks)" "trace (then_op i rs) = trace (snd rs)"
  by (simp_all add: then_spawn_def then_op_def split: promise.splits)

lemma calm_to_readyMPlayer: "calm_to s (snd (readyMPlayer s))"
proof -
  let ?s0 = "s\<lparr>nreadys := Suc (nreadys s), readyP := (readyP s)(nreadys s := Pending),
               ready_then := (ready_then s)(nreadys s := None)\<rparr>"
  let ?s1 = "if ready s \<and> mplayerProc s \<noteq> None then resolve_ready (nreadys s) ?s0 else ?s0"
  have "trace ?s1 = trace s" by simp
  then have "calm_to s ?s1" by (rule calm_to_same)
  moreover have "calm_to ?s1 (snd (shutdown ?s1))" by (rule calm_to_supervisor)
  ultimately have "calm_to s (snd (shutdown ?s1))" by (rule calm_to_trans)
  then show ?thesis by (simp add: readyMPlayer_def calm_to_def)
qed

lemma calm_to_doOperation: "calm_to s (snd (doOperation opn s))"
proof -
  let ?s0 = "s\<lparr>nops := Suc (nops s), ops := (ops s)(nops s := opn),
               results := (results s)(nops s := Pending),
               timers := (timers s)(nops s := NoTimer)\<rparr>"
  have "calm_to s ?s0" by (rule calm_to_same) simp
  moreover have "calm_to ?s0 (snd (readyMPlayer ?s0))" by (rule calm_to_readyMPlayer)
  ultimately have "calm_to s (snd (readyMPlayer ?s0))" by (rule calm_to_trans)
  then show ?thesis by (simp add: doOperation_def calm_to_def)
qed

lemma calm_to_run_data: "calm_to s (final (run_data l chunk s))"
  by (cases l)
    (simp_all add: run_data_def ready_onData_def op_onData_def calm_to_ready_lines
      calm_to_op_lines)

lemma calm_to_emit_data: "calm_to s (final (emit_data ls chunk s))"
proof (induction ls arbitrary: s)
  case Nil
  show ?case by simp
next
  case (Cons l ls)
  have a: "calm_to s (final (run_data l chunk s))" by (rule calm_to_run_data)
  show ?case
  proof (cases "run_data l chunk s")
    case (Returns s')
    with a Cons [of s'] show ?thesis by (auto intro: calm_to_trans)
  next
    case (Throws e s')
    with a show ?thesis by simp
  qed
qed

lemma calm_to_run_exit: "calm_to s (run_exit l code signal s)"
  by (cases l)
    (simp_all add: run_exit_def ready_onExit_def op_onExit_def calm_to_supervisor,
      simp add: calm_to_def)

lemma calm_to_run_error: "calm_to s (run_error l err s)"
  by (cases l)
    (simp_all add: run_error_def ready_onError_def op_onError_def calm_to_supervisor,
      simp add: calm_to_def)

lemma calm_to_emit_exit: "calm_to s (emit_exit ls code signal s)"
proof (induction ls arbitrary: s)
  case Nil
  show ?case by simp
next
  case (Cons l ls)
  from calm_to_run_exit [of s l code signal] Cons [of "run_exit l code signal s"]
  show ?case by (auto intro: calm_to_trans)
qed

lemma calm_to_emit_error: "calm_to s (emit_error ls err s)"
proof (induction ls arbitrary: s)
  case Nil
  show ?case by simp
next
  case (Cons l ls)
  from calm_to_run_error [of s l err] Cons [of "run_error l err s"]
  show ?case by (auto intro: calm_to_trans)
qed

lemma calm_to_proc_exit: "calm_to s (proc_exit p code signal s)"
proof -
  let ?s0 = "s\<lparr>procs := (procs s)(p := (procs s p)\<lparr>exited := True\<rparr>)\<rparr>"
  have "calm_to s ?s0" by (rule calm_to_same) simp
  moreover have "calm_to ?s0 (emit_exit (exit_l (procs s p)) code signal ?s0)"
    by (rule calm_to_emit_exit)
  ultimately show ?thesis unfolding proc_exit_def by (rule calm_to_trans)
qed

lemma subscribed_op_start: "subscribed (trace s) \<Longrightarrow> subscribed (trace (op_start i s))"
proof (cases "mplayerProc s")
  case None
  assume "subscribed (trace s)"
  then have "subscribed (trace s @ [UnhandledRejection])" by (rule subscribed_calm) simp
  with None show ?thesis by (simp add: op_start_def)
next
  case (Some p)
  assume a: "subscribed (trace s)"
  have "calm (concat (map (exec_effects p) cmds))" for cmds
    by (induction cmds) (simp_all add: exec_effects_def)
  from subscribed_start [OF a this, of p i "op (ops s i)"] Some show ?thesis
    by (simp add: op_start_def exec_all_some subscriptions_def)
qed

lemma subscribed_step: "subscribed (trace s) \<Longrightarrow> subscribed (trace (final (step a s)))"
proof (cases "enabled a s")
  case False
  assume "subscribed (trace s)"
  with False show ?thesis by (simp add: step_def)
next
  case True
  assume sub: "subscribed (trace s)"
  show ?thesis
  proof (cases a)
    case (CallDoOperation opn)
    with True sub calm_to_doOperation [of s opn] show ?thesis
      by (simp add: step_def calm_to_subscribed)
  next
    case CallShutdown
    with True sub calm_to_supervisor(1) [of s] show ?thesis
      by (simp add: step_def calm_to_subscribed)
  next
    case Microtask
    let ?s0 = "s\<lparr>queue := tl (queue s)\<rparr>"
    have s0: "subscribed (trace ?s0)" using sub by simp
    have "subscribed (trace (run_task t ?s0))" for t
    proof (cases t)
      case (SpawnMPlayer r)
      with s0 calm_to_supervisor(5) [of ?s0 r] show ?thesis
        by (simp add: run_task_def calm_to_subscribed)
    next
      case (OpReady i)
      with s0 show ?thesis by (simp add: run_task_def subscribed_op_start)
    next
      case (OpNotReady i v)
      with s0 show ?thesis by (simp add: run_task_def)
    qed
    with True Microtask show ?thesis by (simp add: step_def)
  next
    case (StdoutChunk p chunk)
    with True sub calm_to_emit_data [of s "stdout_l (procs s p)" chunk] show ?thesis
      by (simp add: step_def stdout_chunk_def calm_to_subscribed)
  next
    case (StderrChunk p chunk)
    with True sub calm_to_emit_data [of s "stderr_l (procs s p)" chunk] show ?thesis
      by (simp add: step_def stderr_chunk_def calm_to_subscribed)
  next
    case (Exited p code signal)
    with True sub calm_to_proc_exit [of s p code signal] show ?thesis
      by (simp add: step_def calm_to_subscribed)
  next
    case (Errored p err)
    with True sub calm_to_emit_error [of s "error_l (procs s p)" err] show ?thesis
      by (simp add: step_def proc_error_def calm_to_subscribed)
  next
    case (TimerFired i)
    with True sub calm_to_supervisor(6) [of s i] show ?thesis
      by (simp add: step_def calm_to_subscribed)
  qed
qed

lemma subscribed_run: "subscribed (trace s) \<Longrightarrow> subscribed (trace (final (run acts s)))"
proof (induction acts arbitrary: s)
  case Nil
  then show ?case by simp
next
  case (Cons a acts)
  from Cons.prems have "subscribed (trace (final (step a s)))" by (rule subscribed_step)
  then show ?case using Cons.IH by (cases "step a s") simp_all
qed

section \<open>The claims\<close>

subsection \<open>C1: readyMPlayer when already ready\<close>

text \<open>
  C1 fails on the code. In the ready state of the session above, \<open>readyMPlayer\<close>
  resolves its promise at once and keeps the handle, but it goes on (no \<open>return\<close> after
  \<open>resolve()\<close>, line 172) to call \<open>shutdown\<close>: two listeners are registered on the
  running process and it is killed. When its exit event arrives, the pending operation
  is rejected and a second process is spawned, which is not ready. The same happens when
  the public \<open>doOperation\<close> is called in the ready state.
\<close>

theorem readyMPlayer_when_ready_kills:
  "ready ready_state \<and> mplayerProc ready_state = Some 0 \<and>
   readyP (snd (readyMPlayer ready_state)) (fst (readyMPlayer ready_state)) =
     Resolved JUndefined \<and>
   mplayerProc (snd (readyMPlayer ready_state)) = Some 0 \<and>
   trace (snd (readyMPlayer ready_state)) =
     trace ready_state @
       [ListenExit 0 (ShutdownOnExit 1), ListenError 0 (ShutdownOnError 1), Killed 0] \<and>
   run [Exited 0 None (Some ''SIGTERM''), Microtask] (snd (readyMPlayer ready_state)) =
     Returns respawned_state \<and>
   mplayerProc respawned_state = Some 1 \<and> nprocs respawned_state = 2 \<and>
   \<not> ready respawned_state \<and>
   results respawned_state 0 = Rejected (JStr ''MPLAYER exited (null - SIGTERM)'') \<and>
   last (trace (snd (doOperation get_volume ready_state))) = Killed 0"
  unfolding respawned_state_def ready_state_def ready_run_def get_volume_def
  by (simp add: model_defs)

subsection \<open>C2: the timeout\<close>

text \<open>
  C2 fails on the code. In the ready state of the session above the operation is
  pending with its timer armed. When the timer fires, the operation is rejected with
  \<open>Timed out\<close>, but \<open>cleanup\<close> is not called (lines 59-61): the operation's four
  listeners are still registered, and a line that arrives later is still logged and
  passed to its \<open>processData\<close>.
\<close>

theorem timeout_leaves_listeners:
  "timers ready_state 0 = Armed \<and> results ready_state 0 = Pending \<and>
   step (TimerFired 0) ready_state = Returns (timer_fired 0 ready_state) \<and>
   results (timer_fired 0 ready_state) 0 = Rejected (JStr ''Timed out'') \<and>
   mplayerProc (timer_fired 0 ready_state) = Some 0 \<and>
   stdout_l (procs (timer_fired 0 ready_state) 0) = [OpOnData 0] \<and>
   stderr_l (procs (timer_fired 0 ready_state) 0) = [OpOnData 0] \<and>
   exit_l (procs (timer_fired 0 ready_state) 0) = [ProcOnExit, OpOnExit 0] \<and>
   error_l (procs (timer_fired 0 ready_state) 0) = [ProcOnError, OpOnError 0] \<and>
   trace (final (stdout_chunk 0 ''late'' (timer_fired 0 ready_state))) =
     trace ready_state @ [Log ''data received: late'', ProcessData 0 ''late'']"
  unfolding ready_state_def ready_run_def get_volume_def
  by (simp add: model_defs)

subsection \<open>C3: exec\<close>

text \<open>
  C3, as the code has it. For every list of arguments, \<open>exec\<close> first logs the command,
  the arguments joined by single spaces. If a process handle exists, it then writes the
  command, terminated by a newline, to that process's standard input and returns. If no
  process handle exists, nothing is written and the call throws a \<open>TypeError\<close> (reading
  \<open>stdin\<close> of \<open>undefined\<close>): it is not a silent no-op.
\<close>

theorem exec_writes_or_throws:
  "exec args s =
     (case mplayerProc s of
        Some p \<Rightarrow>
          Returns (s\<lparr>trace := trace s @
            [Log (''Executing: '' @ [QUOTE] @ join_sp args @ [QUOTE]),
             StdinWrite p (join_sp args @ [NL])]\<rparr>)
      | None \<Rightarrow>
          Throws TypeError (s\<lparr>trace := trace s @
            [Log (''Executing: '' @ [QUOTE] @ join_sp args @ [QUOTE])]\<rparr>))"
  by (simp add: exec_def log_def effect_def split: option.splits)

text \<open>
  C3 as stated fails on a fresh manager, which has no process: \<open>exec\<close> does not return
  the state unchanged, it logs and throws.
\<close>

theorem exec_without_process_counterexample:
  "mplayerProc init = None \<and>
   exec [''get_property'', ''volume''] init \<noteq> Returns init \<and>
   exec [''get_property'', ''volume''] init =
     Throws TypeError
       (init\<lparr>trace := [Log (''Executing: '' @ [QUOTE] @ ''get_property volume'' @ [QUOTE])]\<rparr>)"
  by (simp add: exec_def log_def init_def)

subsection \<open>C4: the process ends under a pending operation\<close>




subsection \<open>C5: the first verdict\<close>

text \<open>
  C5. The \<open>onData\<close> of an operation logs and classifies the lines of a chunk in order.
  If \<open>processData\<close> calls neither callback on any line, that is all it does. If the
  lines are \<open>pre\<close>, then \<open>d\<close>, then \<open>post\<close>, where \<open>processData\<close> calls neither
  callback on a line of \<open>pre\<close> and calls one on \<open>d\<close>, then the lines of \<open>pre\<close> and \<open>d\<close>
  are logged and classified and no line of \<open>post\<close> is; an operation that was pending
  is settled with the value or reason of the first call made on \<open>d\<close>, one that was
  settled already keeps its outcome, and whatever runs afterwards never changes the
  outcome; the timer is no longer armed; one registration of \<open>onData\<close> is removed from
  standard output and from standard error of the current process, one of \<open>onExit\<close>
  and one of \<open>onError\<close> from the process, which leaves none where each was registered
  once.
\<close>

theorem first_verdict_settles:
  "((\<forall>x\<in>set (split_nl chunk). processData (ops s i) x = []) \<longrightarrow>
      op_onData i chunk s =
        s\<lparr>trace := trace s @ concat (map (line_effects i) (split_nl chunk))\<rparr>) \<and>
   (split_nl chunk = pre @ d # post \<and> (\<forall>x\<in>set pre. processData (ops s i) x = []) \<and>
    processData (ops s i) d = c # cs \<and> i < nops s \<longrightarrow>
      trace (op_onData i chunk s) = trace s @ concat (map (line_effects i) (pre @ [d])) \<and>
      results (op_onData i chunk s) i =
        (if results s i = Pending
         then (case c of DoResolve v \<Rightarrow> Resolved v | DoReject r \<Rightarrow> Rejected r)
         else results s i) \<and>
      results (op_onData i chunk s) i \<noteq> Pending \<and>
      (\<forall>acts. results (final (run acts (op_onData i chunk s))) i =
         results (op_onData i chunk s) i) \<and>
      timers (op_onData i chunk s) i \<noteq> Armed \<and>
      (\<forall>p. mplayerProc s = Some p \<longrightarrow>
         stdout_l (procs (op_onData i chunk s) p) =
           removeListener (OpOnData i) (stdout_l (procs s p)) \<and>
         stderr_l (procs (op_onData i chunk s) p) =
           removeListener (OpOnData i) (stderr_l (procs s p)) \<and>
         exit_l (procs (op_onData i chunk s) p) =
           removeListener (OpOnExit i) (exit_l (procs s p)) \<and>
         error_l (procs (op_onData i chunk s) p) =
           removeListener (OpOnError i) (error_l (procs s p)) \<and>
         (distinct (stdout_l (procs s p)) \<longrightarrow>
            OpOnData i \<notin> set (stdout_l (procs (op_onData i chunk s) p))) \<and>
         (distinct (stderr_l (procs s p)) \<longrightarrow>
            OpOnData i \<notin> set (stderr_l (procs (op_onData i chunk s) p))) \<and>
         (distinct (exit_l (procs s p)) \<longrightarrow>
            OpOnExit i \<notin> set (exit_l (procs (op_onData i chunk s) p))) \<and>
         (distinct (error_l (procs s p)) \<longrightarrow>
            OpOnError i \<notin> set (error_l (procs (op_onData i chunk s) p)))))"
proof (rule conjI; rule impI)
  assume "\<forall>x\<in>set (split_nl chunk). processData (ops s i) x = []"
  from op_lines_no_verdict [OF this, of "[]"]
  show "op_onData i chunk s =
        s\<lparr>trace := trace s @ concat (map (line_effects i) (split_nl chunk))\<rparr>"
    by (simp add: op_onData_def)
next
  assume a: "split_nl chunk = pre @ d # post \<and>
    (\<forall>x\<in>set pre. processData (ops s i) x = []) \<and>
    processData (ops s i) d = c # cs \<and> i < nops s"
  then have lines: "split_nl chunk = pre @ d # post"
    and quiet: "\<forall>x\<in>set pre. processData (ops s i) x = []"
    and verdict: "processData (ops s i) d = c # cs"
    and known: "i < nops s"
    by simp_all
  let ?s1 = "s\<lparr>trace := trace s @ concat (map (line_effects i) (pre @ [d]))\<rparr>"
  let ?s' = "op_onData i chunk s"
  from verdict have v: "processData (ops s i) d \<noteq> []" by simp
  have eq: "?s' = cleanup i (settle_calls i (c # cs) ?s1)"
    using op_lines_verdict [OF quiet v, of post] by (simp add: op_onData_def lines verdict)
  have res: "results ?s' i =
        (if results s i = Pending
         then (case c of DoResolve v \<Rightarrow> Resolved v | DoReject r \<Rightarrow> Rejected r)
         else results s i)"
    unfolding eq by (simp add: settle_calls_first settle_calls_settled)
  then have settled: "results ?s' i \<noteq> Pending" by (cases c) (simp_all split: if_splits)
  have "nops ?s' = nops s" unfolding eq by simp
  with known have k: "i < nops ?s'" by simp
  have stable: "results (final (run acts ?s')) i = results ?s' i" for acts
    using settled_kept_run [of ?s' acts] settled k by (simp add: settled_kept_def)
  have tr: "trace ?s' = trace s @ concat (map (line_effects i) (pre @ [d]))"
    unfolding eq by simp
  have tm: "timers ?s' i \<noteq> Armed" unfolding eq by (simp add: cleanup_timer)
  have ls: "stdout_l (procs ?s' p) = removeListener (OpOnData i) (stdout_l (procs s p)) \<and>
            stderr_l (procs ?s' p) = removeListener (OpOnData i) (stderr_l (procs s p)) \<and>
            exit_l (procs ?s' p) = removeListener (OpOnExit i) (exit_l (procs s p)) \<and>
            error_l (procs ?s' p) = removeListener (OpOnError i) (error_l (procs s p))"
    if "mplayerProc s = Some p" for p
    unfolding eq using that by (simp add: cleanup_procs)
  show "trace ?s' = trace s @ concat (map (line_effects i) (pre @ [d])) \<and>
      results ?s' i =
        (if results s i = Pending
         then (case c of DoResolve v \<Rightarrow> Resolved v | DoReject r \<Rightarrow> Rejected r)
         else results s i) \<and>
      results ?s' i \<noteq> Pending \<and>
      (\<forall>acts. results (final (run acts ?s')) i = results ?s' i) \<and>
      timers ?s' i \<noteq> Armed \<and>
      (\<forall>p. mplayerProc s = Some p \<longrightarrow>
         stdout_l (procs ?s' p) = removeListener (OpOnData i) (stdout_l (procs s p)) \<and>
         stderr_l (procs ?s' p) = removeListener (OpOnData i) (stderr_l (procs s p)) \<and>
         exit_l (procs ?s' p) = removeListener (OpOnExit i) (exit_l (procs s p)) \<and>
         error_l (procs ?s' p) = removeListener (OpOnError i) (error_l (procs s p)) \<and>
         (distinct (stdout_l (procs s p)) \<longrightarrow> OpOnData i \<notin> set (stdout_l (procs ?s' p))) \<and>
         (distinct (stderr_l (procs s p)) \<longrightarrow> OpOnData i \<notin> set (stderr_l (procs ?s' p))) \<and>
         (distinct (exit_l (procs s p)) \<longrightarrow> OpOnExit i \<notin> set (exit_l (procs ?s' p))) \<and>
         (distinct (error_l (procs s p)) \<longrightarrow> OpOnError i \<notin> set (error_l (procs ?s' p))))"
    using res settled stable tr tm ls by (simp add: removeListener_distinct)
qed

theorem first_verdict_settles_witness:
  "split_nl ''A: b\<newline>ANS_volume=42\<newline>ANS_volume=50\<newline>'' =
     [''A: b''] @ ''ANS_volume=42'' # [''ANS_volume=50'', []] \<and>
   processData (ops ready_state 0) ''A: b'' = [] \<and>
   processData (ops ready_state 0) ''ANS_volume=42'' = [DoResolve (JStr ''42'')] \<and>
   results ready_state 0 = Pending \<and> 0 < nops ready_state \<and>
   mplayerProc ready_state = Some 0 \<and>
   results (op_onData 0 ''A: b\<newline>ANS_volume=42\<newline>ANS_volume=50\<newline>'' ready_state) 0 =
     Resolved (JStr ''42'') \<and>
   trace (op_onData 0 ''A: b\<newline>ANS_volume=42\<newline>ANS_volume=50\<newline>'' ready_state) =
     trace ready_state @
       [Log ''data received: A: b'', ProcessData 0 ''A: b'',
        Log ''data received: ANS_volume=42'', ProcessData 0 ''ANS_volume=42''] \<and>
   timers (op_onData 0 ''A: b\<newline>ANS_volume=42\<newline>ANS_volume=50\<newline>'' ready_state) 0 \<noteq> Armed \<and>
   OpOnData 0 \<notin> set (stdout_l (procs
     (op_onData 0 ''A: b\<newline>ANS_volume=42\<newline>ANS_volume=50\<newline>'' ready_state) 0)) \<and>
   OpOnData 0 \<notin> set (stderr_l (procs
     (op_onData 0 ''A: b\<newline>ANS_volume=42\<newline>ANS_volume=50\<newline>'' ready_state) 0)) \<and>
   OpOnExit 0 \<notin> set (exit_l (procs
     (op_onData 0 ''A: b\<newline>ANS_volume=42\<newline>ANS_volume=50\<newline>'' ready_state) 0)) \<and>
   OpOnError 0 \<notin> set (error_l (procs
     (op_onData 0 ''A: b\<newline>ANS_volume=42\<newline>ANS_volume=50\<newline>'' ready_state) 0))"
  using first_verdict_settles
    [where chunk = "''A: b\<newline>ANS_volume=42\<newline>ANS_volume=50\<newline>''" and pre = "[''A: b'']"
       and d = "''ANS_volume=42''" and post = "[''ANS_volume=50'', []]" and s = ready_state
       and i = 0 and c = "DoResolve (JStr ''42'')" and cs = "[]"]
    ready_state_fields
  by (simp add: get_volume_def line_effects_def)

subsection \<open>C6: ready only with a live handle\<close>

text \<open>
  C6. In every state the manager reaches from its initial state, by calls of
  \<open>doOperation\<close> and \<open>shutdown\<close>, microtasks and events in any order the event loop
  allows: if \<open>ready\<close> is true, a process handle exists, and it is a spawned process
  whose exit event has not been delivered. When the exit or the error event of the
  current handle is delivered, the first listener to run is the one that calls
  \<open>handleProcCompletion\<close>; it clears the handle and the flag in one go, and both are
  still cleared when the last listener of that event has run.
\<close>

theorem ready_only_while_alive:
  assumes "run acts init = Returns s"
  shows "(ready s \<longrightarrow> (\<exists>p. mplayerProc s = Some p \<and> p < nprocs s \<and> \<not> exited (procs s p))) \<and>
         (\<forall>p code signal. mplayerProc s = Some p \<longrightarrow>
            first_is ProcOnExit (exit_l (procs s p)) \<and>
            mplayerProc (proc_onExit code signal s) = None \<and>
            \<not> ready (proc_onExit code signal s) \<and>
            mplayerProc (proc_exit p code signal s) = None \<and>
            \<not> ready (proc_exit p code signal s)) \<and>
         (\<forall>p err. mplayerProc s = Some p \<longrightarrow>
            first_is ProcOnError (error_l (procs s p)) \<and>
            mplayerProc (proc_onError err s) = None \<and>
            \<not> ready (proc_onError err s) \<and>
            (\<exists>s'. proc_error p err s = Returns s' \<and> mplayerProc s' = None \<and> \<not> ready s'))"
proof -
  have "handle_inv (final (run acts init))" using handle_inv_init by (rule handle_inv_run)
  with assms have h: "handle_inv s" by simp
  have c1: "cleared (proc_onExit code signal s)" for code signal
    by (simp add: proc_onExit_def cleared_completion)
  have c2: "cleared (proc_onError err s)" for err
    by (simp add: proc_onError_def cleared_completion)
  show ?thesis
    using h proc_exit_current [OF h] proc_error_current [OF h] c1 c2
    by (auto simp: handle_inv_def cleared_def)
qed

theorem ready_only_while_alive_witness:
  "run ready_run init = Returns ready_state \<and>
   ready ready_state \<and> mplayerProc ready_state = Some 0 \<and>
   \<not> exited (procs ready_state 0) \<and>
   mplayerProc (proc_exit 0 None (Some ''SIGTERM'') ready_state) = None \<and>
   \<not> ready (proc_exit 0 None (Some ''SIGTERM'') ready_state) \<and>
   (\<exists>s'. proc_error 0 ''kill EPERM'' ready_state = Returns s' \<and>
         mplayerProc s' = None \<and> \<not> ready s')"
  using ready_only_while_alive [OF ready_run_returns] ready_state_fields
  by (simp add: ready_run_returns)

subsection \<open>C7: subscription before the command\<close>

text \<open>
  C7. The reaction of \<open>doOperation\<close> to readiness does, in this order: register
  \<open>onData\<close> on standard output and on standard error, \<open>onExit\<close> and \<open>onError\<close> on the
  process, call \<open>op\<close>, and only then what \<open>op\<close> makes \<open>exec\<close> do (log and write each
  command). The four listeners are registered from then on. Without a process handle
  the reaction throws before it calls \<open>op\<close>: nothing is written at all. And in every
  run of the manager from its initial state, wherever the trace has a call of the \<open>op\<close>
  of an operation, the four registrations of that operation on one process stand
  right before it.
\<close>

theorem subscription_before_op:
  "(case mplayerProc s of
      None \<Rightarrow> trace (op_start i s) = trace s @ [UnhandledRejection]
    | Some p \<Rightarrow>
        trace (op_start i s) =
          trace s @
            [ListenData p Stdout (OpOnData i), ListenData p Stderr (OpOnData i),
             ListenExit p (OpOnExit i), ListenError p (OpOnError i), OpCalled i] @
            concat (map (exec_effects p) (op (ops s i))) \<and>
        stdout_l (procs (op_start i s) p) = stdout_l (procs s p) @ [OpOnData i] \<and>
        stderr_l (procs (op_start i s) p) = stderr_l (procs s p) @ [OpOnData i] \<and>
        exit_l (procs (op_start i s) p) = exit_l (procs s p) @ [OpOnExit i] \<and>
        error_l (procs (op_start i s) p) = error_l (procs s p) @ [OpOnError i]) \<and>
   (\<forall>acts s' pre post j.
      run acts init = Returns s' \<longrightarrow> trace s' = pre @ OpCalled j # post \<longrightarrow>
      (\<exists>p pre'. pre =
         pre' @ [ListenData p Stdout (OpOnData j), ListenData p Stderr (OpOnData j),
                 ListenExit p (OpOnExit j), ListenError p (OpOnError j)]))"
proof (intro conjI allI impI)
  show "case mplayerProc s of
      None \<Rightarrow> trace (op_start i s) = trace s @ [UnhandledRejection]
    | Some p \<Rightarrow>
        trace (op_start i s) =
          trace s @
            [ListenData p Stdout (OpOnData i), ListenData p Stderr (OpOnData i),
             ListenExit p (OpOnExit i), ListenError p (OpOnError i), OpCalled i] @
            concat (map (exec_effects p) (op (ops s i))) \<and>
        stdout_l (procs (op_start i s) p) = stdout_l (procs s p) @ [OpOnData i] \<and>
        stderr_l (procs (op_start i s) p) = stderr_l (procs s p) @ [OpOnData i] \<and>
        exit_l (procs (op_start i s) p) = exit_l (procs s p) @ [OpOnExit i] \<and>
        error_l (procs (op_start i s) p) = error_l (procs s p) @ [OpOnError i]"
    by (simp add: op_start_def exec_all_some split: option.splits)
next
  fix acts s' pre post j
  assume reach: "run acts init = Returns s'" and tr: "trace s' = pre @ OpCalled j # post"
  have "subscribed (trace init)" by (simp add: init_def subscribed_Nil)
  then have "subscribed (trace (final (run acts init)))" by (rule subscribed_run)
  with reach tr
  show "\<exists>p pre'. pre =
         pre' @ [ListenData p Stdout (OpOnData j), ListenData p Stderr (OpOnData j),
                 ListenExit p (OpOnExit j), ListenError p (OpOnError j)]"
    by (simp add: subscribed_def subscriptions_def)
qed

theorem subscription_before_op_witness:
  "run ready_run init = Returns ready_state \<and>
   trace ready_state =
     ready_trace_before_op @ OpCalled 0 #
       [Log (''Executing: '' @ [QUOTE] @ ''get_property volume'' @ [QUOTE]),
        StdinWrite 0 ''get_property volume\<newline>''] \<and>
   (\<exists>p pre'. ready_trace_before_op =
      pre' @ [ListenData p Stdout (OpOnData 0), ListenData p Stderr (OpOnData 0),
              ListenExit p (OpOnExit 0), ListenError p (OpOnError 0)])"
proof -
  have tr: "trace ready_state =
     ready_trace_before_op @ OpCalled 0 #
       [Log (''Executing: '' @ [QUOTE] @ ''get_property volume'' @ [QUOTE]),
        StdinWrite 0 ''get_property volume\<newline>'']"
    unfolding ready_state_def ready_run_def get_volume_def ready_trace_before_op_def
    by (simp add: model_defs)
  from subscription_before_op [where s = ready_state and i = 0] ready_run_returns tr
  have "\<exists>p pre'. ready_trace_before_op =
      pre' @ [ListenData p Stdout (OpOnData 0), ListenData p Stderr (OpOnData 0),
              ListenExit p (OpOnExit 0), ListenError p (OpOnError 0)]"
    by blast
  with ready_run_returns tr show ?thesis by simp
qed

subsection \<open>C8: shutdown without a process\<close>

text \<open>
  C8. In every state with no process handle, \<open>shutdown\<close> returns a promise that is
  already resolved; it spawns nothing, kills nothing, queues nothing and registers no
  listener: but for the new promise, the state is the one it was called in.
\<close>

theorem shutdown_without_process:
  "mplayerProc s = None \<Longrightarrow>
   fst (shutdown s) = nshuts s \<and>
   shutP (snd (shutdown s)) (fst (shutdown s)) = Resolved JUndefined \<and>
   mplayerProc (snd (shutdown s)) = None \<and>
   ready (snd (shutdown s)) = ready s \<and>
   procs (snd (shutdown s)) = procs s \<and>
   nprocs (snd (shutdown s)) = nprocs s \<and>
   queue (snd (shutdown s)) = queue s \<and>
   trace (snd (shutdown s)) = trace s \<and>
   snd (shutdown s) =
     s\<lparr>nshuts := Suc (nshuts s), shutP := (shutP s)(nshuts s := Resolved JUndefined),
       shut_then := (shut_then s)(nshuts s := None)\<rparr>"
  by (simp add: shutdown_def)

theorem shutdown_without_process_witness:
  "mplayerProc init = None \<and>
   shutP (snd (shutdown init)) (fst (shutdown init)) = Resolved JUndefined \<and>
   mplayerProc (snd (shutdown init)) = None \<and>
   nprocs (snd (shutdown init)) = 0 \<and>
   trace (snd (shutdown init)) = []"
  using shutdown_without_process [of init] by (simp add: init_def)

subsection \<open>C9: the banner on standard error\<close>

text \<open>
  C9. In every state the manager reaches, a chunk delivered on the standard error of any
  process, whatever it contains, is handled without a throw, leaves \<open>ready\<close> as it was
  and settles no promise of \<open>readyMPlayer\<close>: only the \<open>onData\<close> of operations listen
  there, the readiness scan listens on standard output alone.
\<close>

theorem stderr_never_marks_ready:
  assumes "run acts init = Returns s"
  shows "\<exists>s'. stderr_chunk p chunk s = Returns s' \<and> ready s' = ready s \<and> readyP s' = readyP s"
proof -
  have "stderr_inv (final (run acts init))" using stderr_inv_init by (rule stderr_inv_run)
  with assms have "stderr_inv s" by simp
  then have "list_all is_op_listener (stderr_l (procs s p))" by (simp add: stderr_inv_def)
  then show ?thesis unfolding stderr_chunk_def by (rule emit_data_ops_only)
qed

theorem stderr_never_marks_ready_witness:
  "run spawned_run init = Returns spawned_state \<and>
   \<not> ready spawned_state \<and> readyP spawned_state 0 = Pending \<and>
   (\<exists>s'. stderr_chunk 0 ''CPLAYER: MPlayer started\<newline>'' spawned_state = Returns s' \<and>
         \<not> ready s' \<and> readyP s' 0 = Pending)"
  using stderr_never_marks_ready [OF spawned_run_returns, of 0 "''CPLAYER: MPlayer started\<newline>''"]
    spawned_state_fields
  by (auto simp: spawned_run_returns)

subsection \<open>C10: the empty piece after a final newline\<close>

text \<open>
  C10. A chunk that ends with a newline splits into the pieces of the chunk without that
  newline, followed by the empty string. The empty string is then a line like the
  others. In an operation's \<open>onData\<close>, when no earlier line of the chunk drew a verdict,
  it is logged and passed to \<open>processData\<close> last. In the readiness \<open>onData\<close>, when no
  earlier line of the chunk held the signature, it is logged last (and does not hold
  the signature).
\<close>

theorem trailing_newline_empty_line:
  "split_nl (chunk @ [NL]) = split_nl chunk @ [[]] \<and>
   ((\<forall>d\<in>set (split_nl chunk). processData (ops s i) d = []) \<longrightarrow>
      op_onData i (chunk @ [NL]) s = op_lines i [[]] (op_onData i chunk s) \<and>
      trace (op_onData i (chunk @ [NL]) s) =
        trace (op_onData i chunk s) @ [Log ''data received: '', ProcessData i []]) \<and>
   ((\<forall>d\<in>set (split_nl chunk). \<not> str_includes d READY_SIGNATURE) \<longrightarrow>
      ready_onData r chunk s = Returns (final (ready_onData r chunk s)) \<and>
      ready_onData r (chunk @ [NL]) s =
        Returns (log ''data received: '' (final (ready_onData r chunk s))))"
proof (intro conjI impI)
  show "split_nl (chunk @ [NL]) = split_nl chunk @ [[]]" by (rule split_nl_snoc)
next
  assume a: "\<forall>d\<in>set (split_nl chunk). processData (ops s i) d = []"
  from op_lines_no_verdict [OF a, of "[]"] op_lines_no_verdict [OF a, of "[[]]"]
  show e: "op_onData i (chunk @ [NL]) s = op_lines i [[]] (op_onData i chunk s)"
    by (simp add: op_onData_def split_nl_snoc)
  show "trace (op_onData i (chunk @ [NL]) s) =
        trace (op_onData i chunk s) @ [Log ''data received: '', ProcessData i []]"
    unfolding e op_lines_single_trace by (simp add: line_effects_def)
next
  assume a: "\<forall>d\<in>set (split_nl chunk). \<not> str_includes d READY_SIGNATURE"
  from ready_lines_no_match [OF a, of r "[]" s]
  show b: "ready_onData r chunk s = Returns (final (ready_onData r chunk s))"
    by (simp add: ready_onData_def)
  from ready_lines_no_match [OF a, of r "[]" s] ready_lines_no_match [OF a, of r "[[]]" s]
  show "ready_onData r (chunk @ [NL]) s =
        Returns (log ''data received: '' (final (ready_onData r chunk s)))"
    by (simp add: ready_onData_def split_nl_snoc READY_SIGNATURE_def log_def)
qed

theorem trailing_newline_empty_line_witness:
  "split_nl ''hello\<newline>'' = [''hello'', []] \<and>
   processData (ops ready_state 0) ''hello'' = [] \<and>
   trace (op_onData 0 ''hello\<newline>'' ready_state) =
     trace ready_state @
       [Log ''data received: hello'', ProcessData 0 ''hello'',
        Log ''data received: '', ProcessData 0 []] \<and>
   ready_onData 0 ''hello\<newline>'' ready_state =
     Returns (ready_state\<lparr>trace := trace ready_state @
       [Log ''data received: hello'', Log ''data received: '']\<rparr>)"
  using trailing_newline_empty_line [of "''hello''" ready_state 0 0] ready_state_fields
  by (simp add: get_volume_def op_onData_def ready_onData_def READY_SIGNATURE_def
      log_def effect_def)

subsection \<open>Two more properties of every run\<close>

text \<open>
  In every state the manager reaches, a process on which a listener of some operation
  is registered (on its standard output, its standard error, its exit or its error
  event) is the current process \<open>mplayerProc\<close>: \<open>cleanup\<close> and \<open>handleProcCompletion\<close>,
  which both work on the current process, reach every listener an operation has.
\<close>

theorem operations_listen_on_current_process:
  assumes "run acts init = Returns s" and "op_listening p s"
  shows "mplayerProc s = Some p"
proof -
  have "session_inv (final (run acts init))" using session_inv_init by (rule session_inv_run)
  with assms(1) have "session_inv s" by simp
  with assms(2) show ?thesis by (simp add: session_inv_def wiring_def)
qed

theorem operations_listen_on_current_process_witness:
  "run ready_run init = Returns ready_state \<and> op_listening 0 ready_state \<and>
   mplayerProc ready_state = Some 0"
  using operations_listen_on_current_process [OF ready_run_returns, of 0] ready_state_fields
  by (simp add: ready_run_returns op_listening_def)

text \<open>
  The promise of an operation settles at most once: whatever the manager does after an
  operation has been resolved or rejected (further verdicts, the timer, exit and error
  events, new operations), its outcome stays what it was.
\<close>

theorem settled_outcome_is_final:
  assumes "results s i \<noteq> Pending" and "i < nops s"
  shows "results (final (run acts s)) i = results s i"
  using settled_kept_run [of s acts] assms by (simp add: settled_kept_def)

theorem settled_outcome_is_final_witness:
  "results (timer_fired 0 ready_state) 0 = Rejected (JStr ''Timed out'') \<and>
   0 < nops (timer_fired 0 ready_state) \<and>
   results (final (run [StdoutChunk 0 ''ANS_volume=42\<newline>'']
     (timer_fired 0 ready_state))) 0 = Rejected (JStr ''Timed out'')"
  using settled_outcome_is_final
    [of "timer_fired 0 ready_state" 0 "[StdoutChunk 0 ''ANS_volume=42\<newline>'']"]
    ready_state_fields
  by (simp add: timer_fired_def)

end
